theory Spec2Isabelle
  imports Complex_Main "HOL-Library.Word" "HOL-Library.Signed_Division"
begin

section \<open>A terminal countdown timer (timer.go)\<close>

text \<open>
  The program is a bubbletea application: a \<open>model\<close> struct, a transition function
  \<open>Update\<close> driven by key presses and one-second ticks, a pure formatter
  \<open>formatDuration\<close> and a renderer \<open>View\<close>. Go's \<open>int\<close> and \<open>time.Duration\<close> are taken
  as 64-bit two's complement integers (\<open>64 word\<close>, read through \<open>sint\<close>); a Go
  \<open>string\<close> is a sequence of bytes (\<open>string\<close>, that is \<open>char list\<close>).
\<close>

subsection \<open>The standard library functions the program calls\<close>

text \<open>
  \<open>strings.TrimSpace\<close>, \<open>strconv.Atoi\<close>, \<open>fmt.Sprintf\<close> with the verb \<open>%02d\<close> and
  \<open>time.Duration.Round\<close> belong to the Go standard library. They are written
  out here after their documented behaviour, on the platform where \<open>int\<close> has 64 bits.
\<close>

type_synonym int64 = "64 word"

definition byte :: "char \<Rightarrow> nat" where
  "byte c = of_char c"

text \<open>
  \<open>unicode.IsSpace\<close> holds of U+0009..U+000D, U+0020, U+0085, U+00A0, U+1680,
  U+2000..U+200A, U+2028, U+2029, U+202F, U+205F and U+3000. \<open>spaceWidth s\<close> is the
  number of bytes of the UTF-8 encoding of such a code point when \<open>s\<close> starts with one,
  and 0 otherwise.
\<close>

definition asciiSpace :: "char \<Rightarrow> bool" where
  "asciiSpace c = (byte c = 32 \<or> (9 \<le> byte c \<and> byte c \<le> 13))"

fun spaceWidth :: "string \<Rightarrow> nat" where
  "spaceWidth [] = 0"
| "spaceWidth [a] = (if asciiSpace a then 1 else 0)"
| "spaceWidth [a, b] =
     (if asciiSpace a then 1
      else if byte a = 0xC2 \<and> (byte b = 0x85 \<or> byte b = 0xA0) then 2
      else 0)"
| "spaceWidth (a # b # c # s) =
     (if asciiSpace a then 1
      else if byte a = 0xC2 \<and> (byte b = 0x85 \<or> byte b = 0xA0) then 2
      else if byte a = 0xE1 \<and> byte b = 0x9A \<and> byte c = 0x80 then 3
      else if byte a = 0xE2 \<and> byte b = 0x80
              \<and> ((0x80 \<le> byte c \<and> byte c \<le> 0x8A) \<or> byte c = 0xA8 \<or> byte c = 0xA9 \<or> byte c = 0xAF)
           then 3
      else if byte a = 0xE2 \<and> byte b = 0x81 \<and> byte c = 0x9F then 3
      else if byte a = 0xE3 \<and> byte b = 0x80 \<and> byte c = 0x80 then 3
      else 0)"

text \<open>
  The same test at the end of a string (Go decodes the last code point): the argument is
  the string reversed, so the encodings are read back to front.
\<close>

fun spaceWidthRev :: "string \<Rightarrow> nat" where
  "spaceWidthRev [] = 0"
| "spaceWidthRev [a] = (if asciiSpace a then 1 else 0)"
| "spaceWidthRev [b, a] =
     (if asciiSpace b then 1
      else if byte a = 0xC2 \<and> (byte b = 0x85 \<or> byte b = 0xA0) then 2
      else 0)"
| "spaceWidthRev (c # b # a # s) =
     (if asciiSpace c then 1
      else if byte b = 0xC2 \<and> (byte c = 0x85 \<or> byte c = 0xA0) then 2
      else if byte a = 0xE1 \<and> byte b = 0x9A \<and> byte c = 0x80 then 3
      else if byte a = 0xE2 \<and> byte b = 0x80
              \<and> ((0x80 \<le> byte c \<and> byte c \<le> 0x8A) \<or> byte c = 0xA8 \<or> byte c = 0xA9 \<or> byte c = 0xAF)
           then 3
      else if byte a = 0xE2 \<and> byte b = 0x81 \<and> byte c = 0x9F then 3
      else if byte a = 0xE3 \<and> byte b = 0x80 \<and> byte c = 0x80 then 3
      else 0)"

text \<open>
  Dropping white space from the front: \<open>fuel\<close> bounds the number of code points
  dropped, and the length of the string is always enough.
\<close>

fun dropSpaces :: "(string \<Rightarrow> nat) \<Rightarrow> nat \<Rightarrow> string \<Rightarrow> string" where
  "dropSpaces w 0 s = s"
| "dropSpaces w (Suc fuel) s = (if w s = 0 then s else dropSpaces w fuel (drop (w s) s))"

definition TrimLeftSpace :: "string \<Rightarrow> string" where
  "TrimLeftSpace s = dropSpaces spaceWidth (length s) s"

definition TrimRightSpace :: "string \<Rightarrow> string" where
  "TrimRightSpace s = rev (dropSpaces spaceWidthRev (length s) (rev s))"

definition TrimSpace :: "string \<Rightarrow> string" where
  "TrimSpace s = TrimRightSpace (TrimLeftSpace s)"

text \<open>
  \<open>strconv.Atoi s\<close> is \<open>strconv.ParseInt s 10 0\<close> converted to \<open>int\<close>: an optional sign,
  then one or more decimal digits; a syntax error on anything else, a range error when
  the value does not fit 64 bits. \<open>ParseUint\<close> reads the digits from the left and stops
  at the first error.
\<close>

datatype NumError = ErrSyntax | ErrRange

definition isDigit :: "char \<Rightarrow> bool" where
  "isDigit c = (48 \<le> byte c \<and> byte c \<le> 57)"

definition digitVal :: "char \<Rightarrow> nat" where
  "digitVal c = byte c - 48"

definition maxUint64 :: nat where
  "maxUint64 = 18446744073709551615"

fun parseDigits :: "nat \<Rightarrow> string \<Rightarrow> NumError + nat" where
  "parseDigits n [] = Inr n"
| "parseDigits n (c # cs) =
     (if \<not> isDigit c then Inl ErrSyntax
      else if n \<ge> maxUint64 div 10 + 1 then Inl ErrRange
      else if n * 10 + digitVal c > maxUint64 then Inl ErrRange
      else parseDigits (n * 10 + digitVal c) cs)"

definition ParseUint :: "string \<Rightarrow> NumError + nat" where
  "ParseUint s = (if s = [] then Inl ErrSyntax else parseDigits 0 s)"

definition ParseInt :: "string \<Rightarrow> NumError + int" where
  "ParseInt s =
     (case s of
        [] \<Rightarrow> Inl ErrSyntax
      | c # cs \<Rightarrow>
          (let neg = (c = CHR ''-'');
               s' = (if c = CHR ''+'' \<or> c = CHR ''-'' then cs else s)
           in case ParseUint s' of
                Inl e \<Rightarrow> Inl e
              | Inr un \<Rightarrow>
                  if \<not> neg \<and> un \<ge> 2 ^ 63 then Inl ErrRange
                  else if neg \<and> un > 2 ^ 63 then Inl ErrRange
                  else Inr (if neg then - int un else int un)))"

definition Atoi :: "string \<Rightarrow> NumError + int64" where
  "Atoi s = (case ParseInt s of Inl e \<Rightarrow> Inl e | Inr i \<Rightarrow> Inr (word_of_int i))"

text \<open>
  The decimal digits of a natural number, most significant first, without leading
  zeros. \<open>fmt.Sprintf\<close> prints an integer with \<open>%02d\<close> as its sign, if negative, and
  its decimal digits padded with zeros on the left so that sign and digits fill at
  least two columns.
\<close>

definition digitChar :: "nat \<Rightarrow> char" where
  "digitChar d = ''0123456789'' ! d"

fun decimal :: "nat \<Rightarrow> string" where
  "decimal n = (if n < 10 then [digitChar n] else decimal (n div 10) @ [digitChar (n mod 10)])"

declare decimal.simps [simp del]

definition zeroPad :: "nat \<Rightarrow> string \<Rightarrow> string" where
  "zeroPad w s = replicate (w - length s) (CHR ''0'') @ s"

definition fmt02d :: "int64 \<Rightarrow> string" where
  "fmt02d v =
     (if sint v < 0 then CHR ''-'' # zeroPad 1 (decimal (nat (- sint v)))
      else zeroPad 2 (decimal (nat (sint v))))"

text \<open>
  Go's \<open>/\<close> and \<open>%\<close> on signed integers truncate towards zero. Every divisor in the
  program is a positive constant, so the panic on a zero divisor does not arise.
\<close>

definition quo64 :: "int64 \<Rightarrow> int64 \<Rightarrow> int64" where
  "quo64 a b = word_of_int (sint a sdiv sint b)"

definition rem64 :: "int64 \<Rightarrow> int64 \<Rightarrow> int64" where
  "rem64 a b = word_of_int (sint a smod sint b)"

type_synonym Duration = int64

definition Second :: Duration where
  "Second = 1000000000"

definition Minute :: Duration where
  "Minute = 60 * Second"

definition Hour :: Duration where
  "Hour = 60 * Minute"

definition minDuration :: Duration where
  "minDuration = - 9223372036854775808"

definition maxDuration :: Duration where
  "maxDuration = 9223372036854775807"

text \<open>\<open>lessThanHalf x y\<close> compares \<open>uint64(x) + uint64(x) < uint64(y)\<close>, unsigned.\<close>

definition lessThanHalf :: "Duration \<Rightarrow> Duration \<Rightarrow> bool" where
  "lessThanHalf x y = (x + x < y)"

text \<open>\<open>d.Round(m)\<close>: the multiple of \<open>m\<close> nearest to \<open>d\<close>, halves away from zero.\<close>

definition Round :: "Duration \<Rightarrow> Duration \<Rightarrow> Duration" where
  "Round d m =
     (if m \<le>s 0 then d
      else
        let r = rem64 d m in
        if d <s 0 then
          (let r = - r in
           if lessThanHalf r m then d + r
           else (let d1 = d - m + r in if d1 <s d then d1 else minDuration))
        else if lessThanHalf r m then d - r
        else (let d1 = d + m - r in if d <s d1 then d1 else maxDuration))"

subsection \<open>The model and its messages\<close>

datatype inputState = inputtingTime | running

text \<open>
  The text input and the progress bar are widgets of the bubbles library. Of the text
  input the program reads \<open>Value()\<close> and sets the placeholder, the focus, the character
  limit and the width; its own \<open>Update\<close> is a parameter of the program's \<open>Update\<close>
  below.
\<close>

record textinput =
  Value :: string
  Placeholder :: string
  CharLimit :: nat
  Width :: nat
  focus :: bool

record progressModel =
  width :: nat
  ShowPercentage :: bool
  useRamp :: bool
  FullColor :: string

record model =
  textInput :: textinput
  state :: inputState
  duration :: Duration
  timeRemaining :: Duration
  progress :: progressModel
  done' :: bool
  err :: string

datatype KeyType = KeyCtrlC | KeyEsc | KeyEnter | KeyRunes | KeyBackspace | KeyOther nat

text \<open>
  A message is a key press (its type and its runes), a tick (carrying the time it fired)
  or any other message of the framework.
\<close>

datatype Msg = KeyMsg KeyType string | tickMsg int | OtherMsg nat

datatype Cmd = CmdNil | Quit | Tick Duration | Blink | EnterAltScreen | TextInputCmd nat | Batch "Cmd list"

definition initialModel :: model where
  "initialModel =
     \<lparr> textInput = \<lparr> Value = [], Placeholder = ''Enter minutes...'', CharLimit = 5,
                     Width = 20, focus = True \<rparr>,
       state = inputtingTime,
       duration = 0,
       timeRemaining = 0,
       progress = \<lparr> width = 40, ShowPercentage = False, useRamp = False, FullColor = ''green'' \<rparr>,
       done' = False,
       err = [] \<rparr>"

definition tickEverySecond :: Cmd where
  "tickEverySecond = Tick Second"

definition Init :: "model \<Rightarrow> Cmd" where
  "Init m = Batch [Blink, tickEverySecond, EnterAltScreen]"

subsection \<open>The transition function\<close>

type_synonym textinputUpdate = "Msg \<Rightarrow> textinput \<Rightarrow> textinput \<times> Cmd"

definition validationMessage :: string where
  "validationMessage = ''Please enter a valid positive number''"

text \<open>
  \<open>Update\<close> is written in three parts. \<open>forward\<close> is its end, reached by every
  message that no case returns from: in the input phase the message goes to the text
  input, otherwise nothing happens. \<open>submit\<close> is the body of the Enter case in the
  input phase. \<open>onTick\<close> is the countdown of the tick case.
\<close>

definition forward :: "textinputUpdate \<Rightarrow> model \<Rightarrow> Msg \<Rightarrow> model \<times> Cmd" where
  "forward tiu m msg =
     (if state m = inputtingTime
      then (let (ti, cmd) = tiu msg (textInput m) in (m\<lparr>textInput := ti\<rparr>, cmd))
      else (m, CmdNil))"

definition submit :: "model \<Rightarrow> model \<times> Cmd" where
  "submit m =
     (let input = TrimSpace (Value (textInput m)) in
      case Atoi input of
        Inl e \<Rightarrow> (m\<lparr>err := validationMessage\<rparr>, CmdNil)
      | Inr minutes \<Rightarrow>
          if minutes \<le>s 0 then (m\<lparr>err := validationMessage\<rparr>, CmdNil)
          else
            (let m1 = m\<lparr>duration := minutes * Minute\<rparr>;
                 m2 = m1\<lparr>timeRemaining := duration m1\<rparr>;
                 m3 = m2\<lparr>state := running\<rparr>;
                 m4 = m3\<lparr>err := []\<rparr>
             in (m4, CmdNil)))"

definition onTick :: "model \<Rightarrow> model" where
  "onTick m =
     (if state m = running \<and> 0 <s timeRemaining m then
        (let m1 = m\<lparr>timeRemaining := timeRemaining m - Second\<rparr>
         in if timeRemaining m1 \<le>s 0 then m1\<lparr>timeRemaining := 0, done' := True\<rparr> else m1)
      else m)"

definition Update :: "textinputUpdate \<Rightarrow> model \<Rightarrow> Msg \<Rightarrow> model \<times> Cmd" where
  "Update tiu m msg =
     (case msg of
        KeyMsg k rs \<Rightarrow>
          if k = KeyCtrlC \<or> k = KeyEsc then (m, Quit)
          else if k = KeyEnter \<and> state m = inputtingTime then submit m
          else forward tiu m msg
      | tickMsg t \<Rightarrow> (onTick m, tickEverySecond)
      | OtherMsg x \<Rightarrow> forward tiu m msg)"

subsection \<open>Formatting a duration\<close>

definition formatDuration :: "Duration \<Rightarrow> string" where
  "formatDuration d0 =
     (let d = Round d0 Second;
          h = quo64 d Hour;
          d = d - h * Hour;
          m = quo64 d Minute;
          d = d - m * Minute;
          s = quo64 d Second
      in if 0 <s h then fmt02d h @ '':'' @ fmt02d m @ '':'' @ fmt02d s
         else fmt02d m @ '':'' @ fmt02d s)"

subsection \<open>The progress fraction of the view\<close>

text \<open>
  In the running phase \<open>View\<close> computes \<open>elapsed := m.duration - m.timeRemaining\<close> and
  \<open>percentComplete := float64(elapsed) / float64(m.duration)\<close>, with nothing before the
  division. A \<open>float64\<close> is NaN (not a number), an infinity or a finite number; a
  finite number is given here by its exact value, so the rounding of a finite result to
  53 significant bits is left out, and so is the sign of zero (a converted integer is
  never a negative zero). Division by zero does not panic on floats: it yields an
  infinity, and NaN when the dividend is zero too.
\<close>

datatype float64 = NaN | PosInf | NegInf | Finite rat

definition float64_of_int64 :: "int64 \<Rightarrow> float64" where
  "float64_of_int64 x = Finite (of_int (sint x))"

fun float64_div :: "float64 \<Rightarrow> float64 \<Rightarrow> float64" where
  "float64_div (Finite a) (Finite b) =
     (if b \<noteq> 0 then Finite (a / b)
      else if a = 0 then NaN
      else if 0 < a then PosInf else NegInf)"
| "float64_div (Finite a) PosInf = Finite 0"
| "float64_div (Finite a) NegInf = Finite 0"
| "float64_div PosInf (Finite b) = (if b < 0 then NegInf else PosInf)"
| "float64_div NegInf (Finite b) = (if b < 0 then PosInf else NegInf)"
| "float64_div x y = NaN"

definition View_elapsed :: "model \<Rightarrow> Duration" where
  "View_elapsed m = duration m - timeRemaining m"

definition View_percentComplete :: "model \<Rightarrow> float64" where
  "View_percentComplete m =
     float64_div (float64_of_int64 (View_elapsed m)) (float64_of_int64 (duration m))"

subsection \<open>Running the program on a sequence of messages\<close>

definition run :: "textinputUpdate \<Rightarrow> model \<Rightarrow> Msg list \<Rightarrow> model" where
  "run tiu m msgs = foldl (\<lambda>m msg. fst (Update tiu m msg)) m msgs"

text \<open>
  A small text input to run the program with: typed runes are appended while the
  character limit allows (a limit of 0 is no limit), backspace deletes the last byte.
\<close>

definition simpleInput :: textinputUpdate where
  "simpleInput msg ti =
     (case msg of
        KeyMsg k rs \<Rightarrow>
          if k = KeyRunes then
            (ti\<lparr>Value := (if CharLimit ti = 0 then Value ti @ rs
                           else take (CharLimit ti) (Value ti @ rs))\<rparr>, CmdNil)
          else if k = KeyBackspace then (ti\<lparr>Value := butlast (Value ti)\<rparr>, CmdNil)
          else (ti, CmdNil)
      | tickMsg t \<Rightarrow> (ti, CmdNil)
      | OtherMsg x \<Rightarrow> (ti, CmdNil))"

subsection \<open>Notions of the specification\<close>

text \<open>
  The UTF-8 encodings of the white space code points: U+0009 to U+000D, U+0020,
  U+0085, U+00A0, U+1680, U+2000 to U+200A, U+2028, U+2029, U+202F, U+205F, U+3000.
\<close>

definition spaceEncodings :: "string list" where
  "spaceEncodings =
     [[CHR 0x09], [CHR 0x0A], [CHR 0x0B], [CHR 0x0C], [CHR 0x0D], [CHR 0x20],
      [CHR 0xC2, CHR 0x85], [CHR 0xC2, CHR 0xA0],
      [CHR 0xE1, CHR 0x9A, CHR 0x80],
      [CHR 0xE2, CHR 0x80, CHR 0x80], [CHR 0xE2, CHR 0x80, CHR 0x81],
      [CHR 0xE2, CHR 0x80, CHR 0x82], [CHR 0xE2, CHR 0x80, CHR 0x83],
      [CHR 0xE2, CHR 0x80, CHR 0x84], [CHR 0xE2, CHR 0x80, CHR 0x85],
      [CHR 0xE2, CHR 0x80, CHR 0x86], [CHR 0xE2, CHR 0x80, CHR 0x87],
      [CHR 0xE2, CHR 0x80, CHR 0x88], [CHR 0xE2, CHR 0x80, CHR 0x89],
      [CHR 0xE2, CHR 0x80, CHR 0x8A],
      [CHR 0xE2, CHR 0x80, CHR 0xA8], [CHR 0xE2, CHR 0x80, CHR 0xA9],
      [CHR 0xE2, CHR 0x80, CHR 0xAF],
      [CHR 0xE2, CHR 0x81, CHR 0x9F],
      [CHR 0xE3, CHR 0x80, CHR 0x80]]"

text \<open>
  A positive integer as the user writes it: an optional plus sign and one or more
  decimal digits, with a value from 1 to the largest 64-bit signed integer.
\<close>

definition digitsValue :: "string \<Rightarrow> nat" where
  "digitsValue ds = foldl (\<lambda>a c. a * 10 + digitVal c) 0 ds"

definition positiveNumeral :: "string \<Rightarrow> bool" where
  "positiveNumeral t =
     (let ds = (case t of [] \<Rightarrow> [] | c # cs \<Rightarrow> if c = CHR ''+'' then cs else t)
      in ds \<noteq> [] \<and> list_all isDigit ds \<and> 0 < digitsValue ds \<and> digitsValue ds < 2 ^ 63)"

text \<open>A number as a field of at least two decimal digits, padded with a zero.\<close>

definition twoDigits :: "nat \<Rightarrow> string" where
  "twoDigits k = (if k < 10 then CHR ''0'' # decimal k else decimal k)"

text \<open>
  The text input counts its content in code points: in a well-formed UTF-8 string these
  are the bytes that are not continuation bytes (0x80 to 0xBF). It accepts no more of
  them than its character limit and never changes the limit; \<open>respectsLimit\<close> says so
  of a text input's \<open>Update\<close>.
\<close>

definition runeCount :: "string \<Rightarrow> nat" where
  "runeCount s = length (filter (\<lambda>c. \<not> (128 \<le> byte c \<and> byte c < 192)) s)"

definition withinLimit :: "textinput \<Rightarrow> bool" where
  "withinLimit ti = (0 < CharLimit ti \<longrightarrow> runeCount (Value ti) \<le> CharLimit ti)"

definition respectsLimit :: "textinputUpdate \<Rightarrow> bool" where
  "respectsLimit tiu =
     (\<forall>msg ti. CharLimit (fst (tiu msg ti)) = CharLimit ti
                \<and> (withinLimit ti \<longrightarrow> withinLimit (fst (tiu msg ti))))"

text \<open>What holds of every state the program reaches.\<close>

definition invariant :: "model \<Rightarrow> bool" where
  "invariant m =
     (CharLimit (textInput m) = 5 \<and> withinLimit (textInput m)
      \<and> 0 \<le> sint (timeRemaining m) \<and> sint (timeRemaining m) \<le> sint (duration m)
      \<and> (done' m \<longrightarrow> timeRemaining m = 0)
      \<and> (state m = inputtingTime \<longrightarrow> duration m = 0 \<and> timeRemaining m = 0 \<and> \<not> done' m)
      \<and> (state m = running \<longrightarrow> 0 < sint (duration m)))"

section \<open>Properties\<close>

subsection \<open>Ticks\<close>

lemma sint_Second: "sint Second = 1000000000"
  by (simp add: Second_def)

lemma sint_sub_Second:
  fixes r :: Duration
  assumes "0 <s r"
  shows "sint (r - Second) = sint r - 1000000000"
proof -
  have pos: "0 < sint r" using assms by (simp add: word_sless_alt)
  have up: "sint r < 2 ^ 63" using sint_lt [of r] by simp
  have "sint (r - Second) = signed_take_bit 63 (sint r - sint Second)"
    by (simp add: sint_word_ariths)
  also have "\<dots> = sint r - 1000000000"
    using pos up by (simp add: sint_Second signed_take_bit_int_eq_self)
  finally show ?thesis .
qed

lemma onTick_state: "state (onTick m) = state m"
  by (simp add: onTick_def Let_def)

lemma onTick_duration: "duration (onTick m) = duration m"
  by (simp add: onTick_def Let_def)

lemma onTick_textInput: "textInput (onTick m) = textInput m"
  by (simp add: onTick_def Let_def)

lemma onTick_err: "err (onTick m) = err m"
  by (simp add: onTick_def Let_def)

lemma onTick_remaining_le: "sint (timeRemaining (onTick m)) \<le> sint (timeRemaining m)"
  by (auto simp: onTick_def Let_def word_sle_eq word_sless_alt sint_sub_Second)

lemma onTick_remaining_nonneg:
  "0 \<le> sint (timeRemaining m) \<Longrightarrow> 0 \<le> sint (timeRemaining (onTick m))"
  by (auto simp: onTick_def Let_def word_sle_eq word_sless_alt sint_sub_Second)

lemma Update_tick: "Update tiu m (tickMsg t) = (onTick m, tickEverySecond)"
  by (simp add: Update_def)

lemma run_Nil: "run tiu m [] = m"
  by (simp add: run_def)

lemma run_Cons: "run tiu m (x # xs) = run tiu (fst (Update tiu m x)) xs"
  by (simp add: run_def)

lemma run_snoc: "run tiu m (xs @ [x]) = fst (Update tiu (run tiu m xs) x)"
  by (simp add: run_def)

lemma run_ticks_state: "state (run tiu m (map tickMsg ts)) = state m"
  by (induction ts arbitrary: m) (simp_all add: run_Nil run_Cons Update_tick onTick_state)

lemma run_ticks_remaining_le:
  "sint (timeRemaining (run tiu m (map tickMsg ts))) \<le> sint (timeRemaining m)"
proof (induction ts arbitrary: m)
  case Nil
  show ?case by (simp add: run_Nil)
next
  case (Cons t ts)
  have "sint (timeRemaining (run tiu (onTick m) (map tickMsg ts))) \<le> sint (timeRemaining (onTick m))"
    by (rule Cons.IH)
  also have "\<dots> \<le> sint (timeRemaining m)"
    by (rule onTick_remaining_le)
  finally show ?case by (simp add: run_Cons Update_tick)
qed

lemma run_ticks_remaining_nonneg:
  "0 \<le> sint (timeRemaining m) \<Longrightarrow> 0 \<le> sint (timeRemaining (run tiu m (map tickMsg ts)))"
  by (induction ts arbitrary: m)
     (simp_all add: run_Nil run_Cons Update_tick onTick_remaining_nonneg)

lemma onTick_finished:
  "state m = running \<Longrightarrow> timeRemaining m = 0 \<Longrightarrow> onTick m = m"
  by (simp add: onTick_def)

lemma run_ticks_finished:
  "timeRemaining m = 0 \<Longrightarrow> run tiu m (map tickMsg ts) = m"
  by (induction ts) (simp_all add: run_Nil run_Cons Update_tick onTick_def)

text \<open>
  C7. From a state in the running phase, along any sequence of ticks: the phase stays
  running, the remaining time after the next tick is at most the remaining time before
  it, the remaining time never exceeds the one the sequence started from, and a
  remaining time that is not negative at the start is not negative afterwards.
\<close>

theorem remaining_nonincreasing_under_ticks:
  assumes "state m = running"
  shows "state (run tiu m (map tickMsg ts)) = running
       \<and> sint (timeRemaining (fst (Update tiu (run tiu m (map tickMsg ts)) (tickMsg t))))
           \<le> sint (timeRemaining (run tiu m (map tickMsg ts)))
       \<and> sint (timeRemaining (run tiu m (map tickMsg ts))) \<le> sint (timeRemaining m)
       \<and> (0 \<le> sint (timeRemaining m)
            \<longrightarrow> 0 \<le> sint (timeRemaining (run tiu m (map tickMsg ts))))"
  using assms
  by (simp add: run_ticks_state Update_tick onTick_remaining_le run_ticks_remaining_le
        run_ticks_remaining_nonneg)

theorem remaining_nonincreasing_under_ticks_witness:
  "state (initialModel\<lparr>state := running, duration := 2 * Second, timeRemaining := 2 * Second\<rparr>) = running
   \<and> timeRemaining (run simpleInput
        (initialModel\<lparr>state := running, duration := 2 * Second, timeRemaining := 2 * Second\<rparr>)
        (map tickMsg [0, 1])) = 0
   \<and> sint (timeRemaining (fst (Update simpleInput (run simpleInput
        (initialModel\<lparr>state := running, duration := 2 * Second, timeRemaining := 2 * Second\<rparr>)
        (map tickMsg [0, 1])) (tickMsg 2)))) \<le> 0"
  using remaining_nonincreasing_under_ticks
    [of "initialModel\<lparr>state := running, duration := 2 * Second, timeRemaining := 2 * Second\<rparr>"
        simpleInput "[0, 1]" 2]
  by (simp add: run_def Update_def onTick_def initialModel_def Second_def word_sle_eq word_sless_alt)

text \<open>
  C8. In a running state whose remaining time is 0 and which is marked done, a tick
  changes nothing: the remaining time is still 0 and the state is still done, and the
  same holds after any number of further ticks.
\<close>

theorem tick_after_zero_idempotent:
  assumes "state m = running" and "timeRemaining m = 0" and "done' m"
  shows "timeRemaining (fst (Update tiu m (tickMsg t))) = 0
       \<and> done' (fst (Update tiu m (tickMsg t)))
       \<and> fst (Update tiu m (tickMsg t)) = m
       \<and> run tiu m (map tickMsg ts) = m"
  using assms by (simp add: Update_tick onTick_finished run_ticks_finished)

theorem tick_after_zero_idempotent_witness:
  "state (initialModel\<lparr>state := running, duration := Minute, done' := True\<rparr>) = running
   \<and> timeRemaining (initialModel\<lparr>state := running, duration := Minute, done' := True\<rparr>) = 0
   \<and> done' (initialModel\<lparr>state := running, duration := Minute, done' := True\<rparr>)
   \<and> timeRemaining (fst (Update simpleInput
        (initialModel\<lparr>state := running, duration := Minute, done' := True\<rparr>) (tickMsg 7))) = 0
   \<and> done' (fst (Update simpleInput
        (initialModel\<lparr>state := running, duration := Minute, done' := True\<rparr>) (tickMsg 7)))"
  using tick_after_zero_idempotent
    [of "initialModel\<lparr>state := running, duration := Minute, done' := True\<rparr>" simpleInput 7 "[]"]
  by (simp add: initialModel_def)

text \<open>
  C9. Whatever the state (either phase, any remaining time), handling a tick returns
  the command that schedules the next tick, and that command fires after one second
  (1000000000 nanoseconds).
\<close>

theorem tick_always_rearms:
  "snd (Update tiu m (tickMsg t)) = tickEverySecond \<and> tickEverySecond = Tick 1000000000"
  by (simp add: Update_tick tickEverySecond_def Second_def)

subsection \<open>Decimal strings and their parsing\<close>

lemma digitChar_digit: "d < 10 \<Longrightarrow> isDigit (digitChar d) \<and> digitVal (digitChar d) = d"
proof -
  assume "d < 10"
  then have "d = 0 \<or> d = 1 \<or> d = 2 \<or> d = 3 \<or> d = 4 \<or> d = 5 \<or> d = 6 \<or> d = 7 \<or> d = 8 \<or> d = 9"
    by arith
  then show ?thesis
    by (elim disjE) (simp_all add: digitChar_def isDigit_def digitVal_def byte_def)
qed

lemma decimal_nonempty: "decimal n \<noteq> []"
  by (subst decimal.simps) simp

lemma decimal_digits: "list_all isDigit (decimal n)"
proof (induction n rule: decimal.induct)
  case (1 n)
  show ?case
  proof (cases "n < 10")
    case True
    then show ?thesis by (subst decimal.simps) (simp add: digitChar_digit)
  next
    case False
    with 1 show ?thesis by (subst decimal.simps) (simp add: digitChar_digit)
  qed
qed

lemma parseDigits_snoc:
  "parseDigits a (xs @ [c]) = (case parseDigits a xs of Inl e \<Rightarrow> Inl e | Inr m \<Rightarrow> parseDigits m [c])"
  by (induction xs arbitrary: a) simp_all

lemma parseDigits_decimal:
  "n \<le> maxUint64 \<Longrightarrow> parseDigits 0 (decimal n) = Inr n"
proof (induction n rule: decimal.induct)
  case (1 n)
  show ?case
  proof (cases "n < 10")
    case True
    then show ?thesis
      by (subst decimal.simps) (simp add: digitChar_digit maxUint64_def)
  next
    case False
    have le: "n div 10 \<le> maxUint64" using "1.prems" by simp
    have ih: "parseDigits 0 (decimal (n div 10)) = Inr (n div 10)"
      using "1.IH" [OF False le] .
    have small: "\<not> maxUint64 div 10 + 1 \<le> n div 10"
      using "1.prems" by (simp add: maxUint64_def)
    have recompose: "n div 10 * 10 + n mod 10 = n" by simp
    show ?thesis
      using False ih small "1.prems"
      by (subst decimal.simps) (simp add: parseDigits_snoc digitChar_digit recompose)
  qed
qed

subsection \<open>Trimming white space\<close>

lemma digit_not_space: "isDigit c \<Longrightarrow> \<not> asciiSpace c \<and> byte c < 128"
  by (auto simp: isDigit_def asciiSpace_def)

lemma spaceWidth_ascii: "byte c < 128 \<Longrightarrow> \<not> asciiSpace c \<Longrightarrow> spaceWidth (c # s) = 0"
  by (cases "(c # s)" rule: spaceWidth.cases) auto

lemma spaceWidthRev_ascii: "byte c < 128 \<Longrightarrow> \<not> asciiSpace c \<Longrightarrow> spaceWidthRev (c # s) = 0"
  by (cases "(c # s)" rule: spaceWidthRev.cases) auto

text \<open>
  The fuel of \<open>dropSpaces\<close> never runs out in \<open>TrimSpace\<close>: what is returned
  has no white space left at the end that was trimmed.
\<close>

lemma spaceWidth_le_length: "spaceWidth s \<le> length s"
  by (cases s rule: spaceWidth.cases) simp_all

lemma spaceWidthRev_le_length: "spaceWidthRev s \<le> length s"
  by (cases s rule: spaceWidthRev.cases) simp_all

lemma dropSpaces_enough_fuel:
  assumes w: "\<And>s. w s \<le> length s"
  shows "length s \<le> fuel \<Longrightarrow> w (dropSpaces w fuel s) = 0"
proof (induction fuel arbitrary: s)
  case 0
  then have "s = []" by simp
  then show ?case using w [of "[]"] by simp
next
  case (Suc fuel)
  show ?case
  proof (cases "w s = 0")
    case True
    then show ?thesis by simp
  next
    case False
    then have "length (drop (w s) s) \<le> fuel" using Suc.prems by simp
    then show ?thesis using False Suc.IH by simp
  qed
qed

lemma TrimLeftSpace_done: "spaceWidth (TrimLeftSpace s) = 0"
  unfolding TrimLeftSpace_def
  by (rule dropSpaces_enough_fuel) (simp_all add: spaceWidth_le_length)

lemma TrimRightSpace_done: "spaceWidthRev (rev (TrimRightSpace s)) = 0"
  unfolding TrimRightSpace_def rev_rev_ident
  by (rule dropSpaces_enough_fuel) (simp_all add: spaceWidthRev_le_length)

lemma dropSpaces_stop: "w s = 0 \<Longrightarrow> dropSpaces w fuel s = s"
  by (cases fuel) simp_all

lemma spaceEncodings_prefix:
  assumes "p \<in> set spaceEncodings"
  shows "p \<noteq> [] \<and> spaceWidth (p @ s) = length p"
proof -
  consider (nil) "s = []" | (one) a where "s = [a]" | (two) a b where "s = [a, b]"
    | (more) a b c t where "s = a # b # c # t"
    by (cases s rule: spaceWidth.cases) auto
  then show ?thesis
  proof cases
    case nil
    with assms show ?thesis by (auto simp: spaceEncodings_def asciiSpace_def byte_def)
  next
    case one
    with assms show ?thesis by (auto simp: spaceEncodings_def asciiSpace_def byte_def)
  next
    case two
    with assms show ?thesis by (auto simp: spaceEncodings_def asciiSpace_def byte_def)
  next
    case more
    with assms show ?thesis by (auto simp: spaceEncodings_def asciiSpace_def byte_def)
  qed
qed

lemma spaceEncodings_suffix:
  assumes "p \<in> set spaceEncodings"
  shows "spaceWidthRev (rev p @ s) = length p"
proof -
  consider (nil) "s = []" | (one) a where "s = [a]" | (two) a b where "s = [a, b]"
    | (more) a b c t where "s = a # b # c # t"
    by (cases s rule: spaceWidth.cases) auto
  then show ?thesis
  proof cases
    case nil
    with assms show ?thesis by (auto simp: spaceEncodings_def asciiSpace_def byte_def)
  next
    case one
    with assms show ?thesis by (auto simp: spaceEncodings_def asciiSpace_def byte_def)
  next
    case two
    with assms show ?thesis by (auto simp: spaceEncodings_def asciiSpace_def byte_def)
  next
    case more
    with assms show ?thesis by (auto simp: spaceEncodings_def asciiSpace_def byte_def)
  qed
qed

lemma dropSpaces_concat:
  assumes w: "\<And>p s. p \<in> P \<Longrightarrow> p \<noteq> [] \<and> w (p @ s) = length p"
    and stop: "w r = 0"
  shows "set ps \<subseteq> P \<Longrightarrow> length ps \<le> fuel \<Longrightarrow> dropSpaces w fuel (concat ps @ r) = r"
proof (induction ps arbitrary: fuel)
  case Nil
  show ?case using stop by (simp add: dropSpaces_stop)
next
  case (Cons p ps)
  from Cons.prems obtain k where fuel: "fuel = Suc k" and k: "length ps \<le> k"
    by (cases fuel) auto
  have p: "p \<noteq> []" "w (p @ concat ps @ r) = length p"
    using w [of p "concat ps @ r"] Cons.prems by auto
  have "dropSpaces w k (concat ps @ r) = r"
    using Cons.IH [of k] Cons.prems k by simp
  then show ?case using p by (simp add: fuel)
qed

lemma length_concat_ge:
  "(\<And>p. p \<in> set ps \<Longrightarrow> p \<noteq> []) \<Longrightarrow> length ps \<le> length (concat ps)"
proof (induction ps)
  case Nil
  show ?case by simp
next
  case (Cons p ps)
  have "p \<noteq> []" using Cons.prems by simp
  then have "1 \<le> length p" by (cases p) simp_all
  moreover have "length ps \<le> length (concat ps)" using Cons by simp
  ultimately show ?case by simp
qed

lemma spaceEncodings_nonempty: "p \<in> set spaceEncodings \<Longrightarrow> p \<noteq> []"
  using spaceEncodings_prefix [of p "[]"] by simp

lemma TrimLeftSpace_spaces:
  assumes "set ps \<subseteq> set spaceEncodings" and "spaceWidth r = 0"
  shows "TrimLeftSpace (concat ps @ r) = r"
proof -
  have "length ps \<le> length (concat ps)"
    using assms(1) by (intro length_concat_ge spaceEncodings_nonempty) auto
  then have "length ps \<le> length (concat ps @ r)" by simp
  then show ?thesis
    unfolding TrimLeftSpace_def
    using assms by (intro dropSpaces_concat [where P = "set spaceEncodings"])
      (simp_all add: spaceEncodings_prefix)
qed

lemma TrimRightSpace_spaces:
  assumes "set qs \<subseteq> set spaceEncodings" and "spaceWidthRev (rev r) = 0"
  shows "TrimRightSpace (r @ concat qs) = r"
proof -
  let ?qs' = "map rev (rev qs)"
  have rv: "rev (r @ concat qs) = concat ?qs' @ rev r"
    by (simp add: rev_concat)
  have sub: "set ?qs' \<subseteq> rev ` set spaceEncodings" using assms(1) by auto
  have "length ?qs' \<le> length (concat ?qs')"
    using assms(1) by (intro length_concat_ge) (auto dest: spaceEncodings_nonempty)
  then have fuel: "length ?qs' \<le> length (r @ concat qs)"
    by (simp add: rev_concat [symmetric] del: rev_concat)
  have "dropSpaces spaceWidthRev (length (r @ concat qs)) (concat ?qs' @ rev r) = rev r"
  proof (rule dropSpaces_concat [where P = "rev ` set spaceEncodings"])
    fix p s assume "p \<in> rev ` set spaceEncodings"
    then obtain q where q: "q \<in> set spaceEncodings" "p = rev q" by auto
    then show "p \<noteq> [] \<and> spaceWidthRev (p @ s) = length p"
      using spaceEncodings_suffix [of q s] spaceEncodings_nonempty [of q] by simp
  qed (use assms(2) sub fuel in simp_all)
  then show ?thesis
    unfolding TrimRightSpace_def rv [symmetric] length_rev
    by (simp add: rv)
qed

lemma sint_word_of_int64:
  "- (2 ^ 63) \<le> i \<Longrightarrow> i < 2 ^ 63 \<Longrightarrow> sint (word_of_int i :: int64) = i"
  by (simp add: sint_sbintrunc' signed_take_bit_int_eq_self)

lemma decimal_hd_digit: "decimal n = c # cs \<Longrightarrow> isDigit c"
  using decimal_digits [of n] by simp

lemma decimal_last_digit: "rev (decimal n) = c # cs \<Longrightarrow> isDigit c"
proof -
  assume "rev (decimal n) = c # cs"
  then have "c \<in> set (decimal n)" by (metis list.set_intros(1) set_rev)
  then show ?thesis using decimal_digits [of n] by (simp add: list_all_iff)
qed

lemma spaceWidth_digits: "list_all isDigit (d # ds) \<Longrightarrow> spaceWidth ((d # ds) @ s) = 0"
  by (simp add: spaceWidth_ascii digit_not_space)

lemma spaceWidth_decimal: "spaceWidth (decimal n @ s) = 0"
proof (cases "decimal n")
  case Nil
  then show ?thesis by (simp add: decimal_nonempty)
next
  case (Cons c cs)
  then show ?thesis using decimal_hd_digit [OF Cons] by (simp add: spaceWidth_ascii digit_not_space)
qed

lemma spaceWidthRev_decimal: "spaceWidthRev (rev (decimal n)) = 0"
proof (cases "rev (decimal n)")
  case Nil
  then show ?thesis by (simp add: decimal_nonempty)
next
  case (Cons c cs)
  then show ?thesis using decimal_last_digit [OF Cons] by (simp add: spaceWidthRev_ascii digit_not_space)
qed

lemma TrimSpace_decimal:
  assumes "set ps \<subseteq> set spaceEncodings" and "set qs \<subseteq> set spaceEncodings"
  shows "TrimSpace (concat ps @ decimal n @ concat qs) = decimal n"
  unfolding TrimSpace_def
  using assms
  by (simp add: TrimLeftSpace_spaces spaceWidth_decimal TrimRightSpace_spaces spaceWidthRev_decimal)

lemma TrimSpace_only_spaces:
  assumes "set ps \<subseteq> set spaceEncodings"
  shows "TrimSpace (concat ps) = []"
proof -
  have "TrimLeftSpace (concat ps @ []) = []"
    using assms by (intro TrimLeftSpace_spaces) simp_all
  then show ?thesis by (simp add: TrimSpace_def TrimRightSpace_def)
qed

lemma digit_not_sign: "isDigit c \<Longrightarrow> c \<noteq> CHR ''+'' \<and> c \<noteq> CHR ''-''"
  by (auto simp: isDigit_def byte_def)

lemma ParseInt_decimal:
  assumes "n \<le> maxUint64"
  shows "ParseInt (decimal n) = (if n < 2 ^ 63 then Inr (int n) else Inl ErrRange)"
proof (cases "decimal n")
  case Nil
  then show ?thesis by (simp add: decimal_nonempty)
next
  case (Cons c cs)
  have sg: "c \<noteq> CHR ''+''" "c \<noteq> CHR ''-''"
    using decimal_hd_digit [OF Cons] digit_not_sign by auto
  have "ParseUint (c # cs) = Inr n"
    using parseDigits_decimal [OF assms] Cons by (simp add: ParseUint_def)
  then show ?thesis by (simp add: ParseInt_def Cons sg)
qed

lemma Atoi_decimal:
  assumes "n < 2 ^ 63"
  shows "Atoi (decimal n) = Inr (word_of_int (int n))"
proof -
  have "n \<le> maxUint64" using assms by (simp add: maxUint64_def)
  then show ?thesis using assms by (simp add: Atoi_def ParseInt_decimal)
qed

lemma minutes_no_overflow:
  assumes "n \<le> 153722867"
  shows "sint (word_of_int (int n) * Minute :: Duration) = int n * 60000000000"
proof -
  have "(word_of_int (int n) * Minute :: Duration) = word_of_int (int n * 60000000000)"
    by (simp add: Minute_def Second_def)
  moreover have "int n * 60000000000 < 2 ^ 63" using assms by simp
  moreover have "- (2 ^ 63) \<le> int n * 60000000000" by simp
  ultimately show ?thesis by (simp only: sint_word_of_int64)
qed

lemma submit_accepts:
  assumes "TrimSpace (Value (textInput m)) = decimal n" and "0 < n" and "n < 2 ^ 63"
  shows "submit m = (m\<lparr>duration := word_of_int (int n) * Minute,
                        timeRemaining := word_of_int (int n) * Minute,
                        state := running, err := []\<rparr>, CmdNil)"
proof -
  have "sint (word_of_int (int n) :: int64) = int n"
    using assms by (intro sint_word_of_int64) simp_all
  then have "\<not> (word_of_int (int n) :: int64) \<le>s 0"
    using assms by (simp add: word_sle_eq)
  then show ?thesis
    using assms by (simp add: submit_def Atoi_decimal Let_def)
qed

lemma Update_enter:
  "state m = inputtingTime \<Longrightarrow> Update tiu m (KeyMsg KeyEnter rs) = submit m"
  by (simp add: Update_def)

subsection \<open>Rejected input\<close>

lemma parseDigits_value:
  "parseDigits a ds = Inr v \<Longrightarrow>
     list_all isDigit ds \<and> v = foldl (\<lambda>a c. a * 10 + digitVal c) a ds"
  by (induction ds arbitrary: a) (auto split: if_splits)

lemma ParseUint_value:
  "ParseUint ds = Inr v \<Longrightarrow> ds \<noteq> [] \<and> list_all isDigit ds \<and> v = digitsValue ds"
  using parseDigits_value [of 0 ds v]
  by (auto simp: ParseUint_def digitsValue_def split: if_splits)

lemma Atoi_positive:
  assumes "Atoi t = Inr v" and "0 <s v"
  shows "positiveNumeral t"
proof (cases t)
  case Nil
  with assms show ?thesis by (simp add: Atoi_def ParseInt_def)
next
  case (Cons c cs)
  let ?s = "if c = CHR ''+'' \<or> c = CHR ''-'' then cs else t"
  from assms(1) obtain i where i: "ParseInt t = Inr i" and v: "v = word_of_int i"
    by (auto simp: Atoi_def split: sum.splits)
  from i obtain un where un: "ParseUint ?s = Inr un"
    by (auto simp: ParseInt_def Cons Let_def split: sum.splits if_splits)
  note val = ParseUint_value [OF un]
  show ?thesis
  proof (cases "c = CHR ''-''")
    case True
    with i un have "un \<le> 2 ^ 63" and "i = - int un"
      by (auto simp: ParseInt_def Cons Let_def split: if_splits)
    then have "sint v = - int un"
      unfolding v using sint_word_of_int64 [of "- int un"] by simp
    with assms(2) show ?thesis by (simp add: word_sless_alt)
  next
    case False
    with i un have lt: "un < 2 ^ 63" and "i = int un"
      by (auto simp: ParseInt_def Cons Let_def split: if_splits)
    then have "sint v = int un"
      unfolding v using sint_word_of_int64 [of "int un"] by simp
    with assms(2) have "0 < un" by (simp add: word_sless_alt)
    with val lt False show ?thesis
      by (auto simp: positiveNumeral_def Cons split: if_splits)
  qed
qed

lemma submit_rejects:
  assumes "\<not> positiveNumeral (TrimSpace (Value (textInput m)))"
  shows "submit m = (m\<lparr>err := validationMessage\<rparr>, CmdNil)"
proof (cases "Atoi (TrimSpace (Value (textInput m)))")
  case (Inl e)
  then show ?thesis by (simp add: submit_def)
next
  case (Inr v)
  have "\<not> 0 <s v" using Atoi_positive [OF Inr] assms by blast
  then have "v \<le>s 0" by (simp add: word_sle_eq word_sless_alt)
  then show ?thesis using Inr by (simp add: submit_def)
qed

subsection \<open>Evaluating the program; accepted input\<close>

text \<open>The unfolding rules that evaluate the program on concrete input.\<close>

lemmas ev_string = TrimSpace_def TrimLeftSpace_def TrimRightSpace_def asciiSpace_def byte_def
  Atoi_def ParseInt_def ParseUint_def isDigit_def digitVal_def maxUint64_def
lemmas ev_step = Update_def submit_def forward_def onTick_def simpleInput_def initialModel_def
  validationMessage_def Second_def Minute_def word_sle_eq word_sless_alt

lemma sint_Minute: "sint Minute = 60 * 1000000000"
  by (simp add: Minute_def Second_def)

lemma submit_textInput_only:
  assumes "TrimSpace (Value ti) = TrimSpace (Value (textInput m))"
  shows "submit (m\<lparr>textInput := ti\<rparr>) = ((fst (submit m))\<lparr>textInput := ti\<rparr>, snd (submit m))"
  using assms by (simp add: submit_def Let_def split: sum.splits)

subsection \<open>Submitting anything else\<close>

text \<open>
  C3. In the input phase, whenever the buffer, white space around it aside, is not a
  positive integer (an optional plus sign and decimal digits with a value from 1 to
  9223372036854775807), Enter returns the state with only the validation error changed,
  to exactly "Please enter a valid positive number": the phase is still the input
  phase, the buffer is as it was, and no command is returned. The buffers "0", "-5",
  "abc" and the empty one are of this kind.
\<close>

theorem invalid_submission_rejected:
  assumes "state m = inputtingTime"
    and "\<not> positiveNumeral (TrimSpace (Value (textInput m)))"
  shows "Update tiu m (KeyMsg KeyEnter rs) = (m\<lparr>err := validationMessage\<rparr>, CmdNil)
       \<and> validationMessage = ''Please enter a valid positive number''"
  using assms by (simp add: Update_enter submit_rejects validationMessage_def)

lemmas ev_numeral = positiveNumeral_def digitsValue_def

theorem invalid_submission_rejected_witness:
  "\<not> positiveNumeral (TrimSpace ''0'') \<and> \<not> positiveNumeral (TrimSpace ''-5'')
   \<and> \<not> positiveNumeral (TrimSpace ''abc'') \<and> \<not> positiveNumeral (TrimSpace '''')
   \<and> Update simpleInput (initialModel\<lparr>textInput := (textInput initialModel)\<lparr>Value := ''0''\<rparr>\<rparr>)
         (KeyMsg KeyEnter [])
       = (initialModel\<lparr>textInput := (textInput initialModel)\<lparr>Value := ''0''\<rparr>,
            err := ''Please enter a valid positive number''\<rparr>, CmdNil)
   \<and> Update simpleInput (initialModel\<lparr>textInput := (textInput initialModel)\<lparr>Value := ''-5''\<rparr>\<rparr>)
         (KeyMsg KeyEnter [])
       = (initialModel\<lparr>textInput := (textInput initialModel)\<lparr>Value := ''-5''\<rparr>,
            err := ''Please enter a valid positive number''\<rparr>, CmdNil)
   \<and> Update simpleInput (initialModel\<lparr>textInput := (textInput initialModel)\<lparr>Value := ''abc''\<rparr>\<rparr>)
         (KeyMsg KeyEnter [])
       = (initialModel\<lparr>textInput := (textInput initialModel)\<lparr>Value := ''abc''\<rparr>,
            err := ''Please enter a valid positive number''\<rparr>, CmdNil)
   \<and> Update simpleInput (initialModel\<lparr>textInput := (textInput initialModel)\<lparr>Value := ''''\<rparr>\<rparr>)
         (KeyMsg KeyEnter [])
       = (initialModel\<lparr>textInput := (textInput initialModel)\<lparr>Value := ''''\<rparr>,
            err := ''Please enter a valid positive number''\<rparr>, CmdNil)"
proof -
  have n0: "\<not> positiveNumeral (TrimSpace ''0'')"
    and n1: "\<not> positiveNumeral (TrimSpace ''-5'')"
    and n2: "\<not> positiveNumeral (TrimSpace ''abc'')"
    and n3: "\<not> positiveNumeral (TrimSpace '''')"
    by (simp_all add: ev_numeral ev_string)
  show ?thesis
    using n0 n1 n2 n3
      invalid_submission_rejected
        [of "initialModel\<lparr>textInput := (textInput initialModel)\<lparr>Value := ''0''\<rparr>\<rparr>" simpleInput "[]"]
      invalid_submission_rejected
        [of "initialModel\<lparr>textInput := (textInput initialModel)\<lparr>Value := ''-5''\<rparr>\<rparr>" simpleInput "[]"]
      invalid_submission_rejected
        [of "initialModel\<lparr>textInput := (textInput initialModel)\<lparr>Value := ''abc''\<rparr>\<rparr>" simpleInput "[]"]
      invalid_submission_rejected
        [of "initialModel\<lparr>textInput := (textInput initialModel)\<lparr>Value := ''''\<rparr>\<rparr>" simpleInput "[]"]
    by (simp add: initialModel_def)
qed

subsection \<open>The life of the validation error\<close>

lemma forward_err: "err (fst (forward tiu m msg)) = err m"
  by (simp add: forward_def split: prod.splits)

lemma submit_outcome:
  "(state (fst (submit m)) = running \<and> err (fst (submit m)) = [])
   \<or> (fst (submit m) = m\<lparr>err := validationMessage\<rparr>)"
  by (simp add: submit_def Let_def split: sum.splits)

text \<open>
  C5 (amended). The validation error is cleared by one event only, a successful
  submission. Every message other than Enter, typed characters among them, and every
  message in the running phase leaves the error as it is; Enter in the input phase
  either succeeds and clears it or fails and sets it to the validation message.
\<close>

theorem validation_error_cleared_only_by_success:
  "(((\<forall>rs. msg \<noteq> KeyMsg KeyEnter rs) \<or> state m = running)
      \<longrightarrow> err (fst (Update tiu m msg)) = err m)
   \<and> (state m = inputtingTime
      \<longrightarrow> (state (fst (Update tiu m (KeyMsg KeyEnter rs))) = running
             \<and> err (fst (Update tiu m (KeyMsg KeyEnter rs))) = [])
          \<or> (state (fst (Update tiu m (KeyMsg KeyEnter rs))) = inputtingTime
             \<and> err (fst (Update tiu m (KeyMsg KeyEnter rs))) = validationMessage))"
proof (intro conjI impI)
  assume h: "(\<forall>rs. msg \<noteq> KeyMsg KeyEnter rs) \<or> state m = running"
  show "err (fst (Update tiu m msg)) = err m"
  proof (cases msg)
    case (KeyMsg k rs)
    with h have "k \<noteq> KeyEnter \<or> state m = running" by auto
    then show ?thesis by (auto simp: Update_def KeyMsg forward_err)
  next
    case (tickMsg t)
    then show ?thesis by (simp add: Update_tick onTick_err)
  next
    case (OtherMsg x)
    then show ?thesis by (simp add: Update_def forward_err)
  qed
next
  assume s: "state m = inputtingTime"
  show "(state (fst (Update tiu m (KeyMsg KeyEnter rs))) = running
             \<and> err (fst (Update tiu m (KeyMsg KeyEnter rs))) = [])
          \<or> (state (fst (Update tiu m (KeyMsg KeyEnter rs))) = inputtingTime
             \<and> err (fst (Update tiu m (KeyMsg KeyEnter rs))) = validationMessage)"
    using submit_outcome [of m] s by (auto simp: Update_enter)
qed

theorem validation_error_cleared_only_by_success_witness:
  "err (run simpleInput initialModel [KeyMsg KeyRunes ''abc'', KeyMsg KeyEnter []]) = validationMessage
   \<and> state (run simpleInput initialModel [KeyMsg KeyRunes ''abc'', KeyMsg KeyEnter []]) = inputtingTime
   \<and> err (fst (Update simpleInput
        (run simpleInput initialModel [KeyMsg KeyRunes ''abc'', KeyMsg KeyEnter []])
        (KeyMsg KeyBackspace []))) = validationMessage
   \<and> err (fst (Update simpleInput
        (run simpleInput initialModel [KeyMsg KeyRunes ''7'', KeyMsg KeyEnter []])
        (KeyMsg KeyEnter []))) = []"
  using validation_error_cleared_only_by_success
     [of "KeyMsg KeyBackspace []"
         "run simpleInput initialModel [KeyMsg KeyRunes ''abc'', KeyMsg KeyEnter []]" simpleInput "[]"]
  by (simp add: run_def ev_string ev_step)

text \<open>
  Typing does not clear the error: after "abc" and Enter the error is set, and it is
  still set after the next typed character.
\<close>

theorem typing_keeps_validation_error_counterexample:
  "err (run simpleInput initialModel [KeyMsg KeyRunes ''abc'', KeyMsg KeyEnter []]) \<noteq> []
   \<and> state (run simpleInput initialModel [KeyMsg KeyRunes ''abc'', KeyMsg KeyEnter []]) = inputtingTime
   \<and> err (fst (Update simpleInput
        (run simpleInput initialModel [KeyMsg KeyRunes ''abc'', KeyMsg KeyEnter []])
        (KeyMsg KeyRunes ''5''))) \<noteq> []"
  by (simp add: run_def ev_string ev_step)

subsection \<open>The formatter\<close>

lemma length_decimal_small: "k < 10 \<Longrightarrow> length (decimal k) = 1"
  by (subst decimal.simps) simp

lemma length_decimal_large: "\<not> k < 10 \<Longrightarrow> 2 \<le> length (decimal k)"
proof -
  assume "\<not> k < 10"
  moreover have "1 \<le> length (decimal (k div 10))"
    using decimal_nonempty [of "k div 10"] by (cases "decimal (k div 10)") simp_all
  ultimately show ?thesis by (subst decimal.simps) simp
qed

lemma zeroPad_decimal: "zeroPad 2 (decimal k) = twoDigits k"
proof (cases "k < 10")
  case True
  then show ?thesis by (simp add: zeroPad_def twoDigits_def length_decimal_small)
next
  case False
  then show ?thesis using length_decimal_large [OF False] by (simp add: zeroPad_def twoDigits_def)
qed

lemma fmt02d_nonneg: "0 \<le> sint v \<Longrightarrow> fmt02d v = twoDigits (nat (sint v))"
  by (simp add: fmt02d_def zeroPad_decimal)

lemma sint_quo64:
  assumes "0 \<le> sint a" and "0 \<le> sint b"
  shows "sint (quo64 a b) = sint a div sint b"
proof -
  have eq: "sint a sdiv sint b = sint a div sint b"
    using assms by (simp add: signed_divide_int_def sgn_if)
  have "0 \<le> sint a div sint b" using assms by (simp add: pos_imp_zdiv_nonneg_iff div_int_pos_iff)
  moreover have "sint a div sint b \<le> sint a"
  proof (cases "sint b = 0")
    case True
    then show ?thesis using assms by simp
  next
    case False
    then have "sint a div sint b \<le> sint a div 1"
      using assms by (intro zdiv_mono2) simp_all
    then show ?thesis by simp
  qed
  moreover have "sint a < 2 ^ 63" using sint_lt [of a] by simp
  ultimately show ?thesis
    unfolding quo64_def eq by (intro sint_word_of_int64) simp_all
qed

lemma sint_sub_mul:
  fixes a b c :: int64
  assumes "- (2 ^ 63) \<le> sint a - sint b * sint c" and "sint a - sint b * sint c < 2 ^ 63"
  shows "sint (a - b * c) = sint a - sint b * sint c"
proof -
  have "a - b * c = word_of_int (sint a - sint b * sint c)" by simp
  then show ?thesis using assms by (simp only: sint_word_of_int64)
qed

lemma Round_whole_seconds:
  assumes "0 \<le> S" and "sint d = S * 1000000000"
  shows "Round d Second = d"
proof -
  have "sint d smod sint Second = 0"
    using assms by (simp add: signed_modulo_int_def sint_Second)
  then have r: "rem64 d Second = 0" by (simp add: rem64_def)
  have "\<not> Second \<le>s 0" by (simp add: Second_def word_sle_eq)
  moreover have "\<not> d <s 0" using assms by (simp add: word_sless_alt)
  moreover have "lessThanHalf 0 Second" by (simp add: lessThanHalf_def Second_def)
  ultimately show ?thesis by (simp add: Round_def r)
qed

lemma seconds_split:
  fixes S :: int
  assumes "0 \<le> S"
  shows "S * 1000000000 div 3600000000000 = S div 3600"
    and "S * 1000000000 - S div 3600 * 3600000000000 = (S mod 3600) * 1000000000"
    and "(S mod 3600) * 1000000000 div 60000000000 = S mod 3600 div 60"
    and "(S mod 3600) * 1000000000 - S mod 3600 div 60 * 60000000000 = (S mod 60) * 1000000000"
    and "(S mod 60) * 1000000000 div 1000000000 = S mod 60"
proof -
  have h: "(3600000000000::int) = 3600 * 1000000000" and m: "(60000000000::int) = 60 * 1000000000"
    by simp_all
  show a: "S * 1000000000 div 3600000000000 = S div 3600"
    unfolding h by simp
  have "S = S div 3600 * 3600 + S mod 3600" by simp
  then have "S * 1000000000 = S div 3600 * 3600000000000 + (S mod 3600) * 1000000000"
    by (metis (no_types, opaque_lifting) distrib_right h mult.assoc)
  then show "S * 1000000000 - S div 3600 * 3600000000000 = (S mod 3600) * 1000000000"
    by simp
  show "(S mod 3600) * 1000000000 div 60000000000 = S mod 3600 div 60"
    unfolding m by simp
  have "S mod 3600 mod 60 = S mod 60"
    by (simp add: mod_mod_cancel)
  moreover have "S mod 3600 = S mod 3600 div 60 * 60 + S mod 3600 mod 60" by simp
  ultimately have "S mod 3600 = S mod 3600 div 60 * 60 + S mod 60" by simp
  then have "(S mod 3600) * 1000000000 = S mod 3600 div 60 * 60000000000 + (S mod 60) * 1000000000"
    by (metis (no_types, opaque_lifting) distrib_right m mult.assoc)
  then show "(S mod 3600) * 1000000000 - S mod 3600 div 60 * 60000000000 = (S mod 60) * 1000000000"
    by simp
  show "(S mod 60) * 1000000000 div 1000000000 = S mod 60" by simp
qed


lemma sint_Hour: "sint Hour = 3600000000000"
  by (simp add: Hour_def Minute_def Second_def)

lemma formatDuration_fields:
  assumes "0 \<le> S" and "sint d = S * 1000000000"
  shows "formatDuration d =
           (if 0 < S div 3600
            then twoDigits (nat (S div 3600)) @ '':'' @ twoDigits (nat (S mod 3600 div 60)) @ '':''
                   @ twoDigits (nat (S mod 60))
            else twoDigits (nat (S mod 3600 div 60)) @ '':'' @ twoDigits (nat (S mod 60)))"
proof -
  note sp = seconds_split [OF assms(1)]
  define h where "h = quo64 d Hour"
  define d1 where "d1 = d - h * Hour"
  define m where "m = quo64 d1 Minute"
  define d2 where "d2 = d1 - m * Minute"
  define s where "s = quo64 d2 Second"
  have d0: "0 \<le> sint d" using assms by simp
  have up: "sint d < 2 ^ 63" using sint_lt [of d] by simp
  have h: "sint h = S div 3600"
    unfolding h_def using d0 by (simp add: sint_quo64 sint_Hour assms(2) sp(1))
  have "sint d - sint h * sint Hour = (S mod 3600) * 1000000000"
    by (simp add: h sint_Hour assms(2) sp(2))
  moreover have "0 \<le> (S mod 3600) * 1000000000" "(S mod 3600) * 1000000000 < 2 ^ 63"
    by simp_all
  ultimately have d1: "sint d1 = (S mod 3600) * 1000000000"
    unfolding d1_def by (subst sint_sub_mul) simp_all
  have m: "sint m = S mod 3600 div 60"
    unfolding m_def by (simp add: sint_quo64 d1 sint_Minute sp(3))
  have "sint d1 - sint m * sint Minute = (S mod 60) * 1000000000"
    using sp(4) by (simp add: m d1 sint_Minute)
  moreover have "0 \<le> (S mod 60) * 1000000000" "(S mod 60) * 1000000000 < 2 ^ 63"
    by simp_all
  ultimately have d2: "sint d2 = (S mod 60) * 1000000000"
    unfolding d2_def by (subst sint_sub_mul) simp_all
  have s: "sint s = S mod 60"
    unfolding s_def by (simp add: sint_quo64 d2 sint_Second)
  have fh: "fmt02d h = twoDigits (nat (S div 3600))"
    using assms(1) by (simp add: fmt02d_nonneg h pos_imp_zdiv_nonneg_iff)
  have fm: "fmt02d m = twoDigits (nat (S mod 3600 div 60))"
    by (simp add: fmt02d_nonneg m pos_imp_zdiv_nonneg_iff)
  have fs: "fmt02d s = twoDigits (nat (S mod 60))"
    by (simp add: fmt02d_nonneg s)
  have pos: "0 <s h \<longleftrightarrow> 0 < S div 3600" by (simp add: word_sless_alt h)
  have "formatDuration d =
          (if 0 <s h then fmt02d h @ '':'' @ fmt02d m @ '':'' @ fmt02d s
           else fmt02d m @ '':'' @ fmt02d s)"
    by (simp add: formatDuration_def Round_whole_seconds [OF assms] Let_def
          h_def d1_def m_def d2_def s_def)
  then show ?thesis by (simp add: fh fm fs pos)
qed

lemma digitsValue_snoc: "digitsValue (xs @ [c]) = digitsValue xs * 10 + digitVal c"
  by (simp add: digitsValue_def)

lemma digitsValue_decimal: "digitsValue (decimal k) = k"
proof (induction k rule: decimal.induct)
  case (1 n)
  show ?case
  proof (cases "n < 10")
    case True
    then show ?thesis
      by (subst decimal.simps) (simp add: digitsValue_def digitChar_digit)
  next
    case False
    then show ?thesis
      using 1 by (subst decimal.simps) (simp add: digitsValue_snoc digitChar_digit)
  qed
qed

lemma digitsValue_leading_zero: "digitsValue (CHR ''0'' # ds) = digitsValue ds"
  by (simp add: digitsValue_def digitVal_def byte_def)

lemma twoDigits_field:
  "list_all isDigit (twoDigits k) \<and> digitsValue (twoDigits k) = k \<and> 2 \<le> length (twoDigits k)"
proof (cases "k < 10")
  case True
  then show ?thesis
    by (simp add: twoDigits_def decimal_digits digitsValue_leading_zero digitsValue_decimal
          length_decimal_small isDigit_def byte_def)
next
  case False
  then show ?thesis
    using length_decimal_large [OF False]
    by (simp add: twoDigits_def decimal_digits digitsValue_decimal)
qed

lemma twoDigits_length: "k < 100 \<Longrightarrow> length (twoDigits k) = 2"
proof (cases "k < 10")
  case True
  then show ?thesis by (simp add: twoDigits_def length_decimal_small)
next
  case False
  assume "k < 100"
  then have "k div 10 < 10" by simp
  then have "length (decimal (k div 10)) = 1" by (rule length_decimal_small)
  then show ?thesis using False by (subst twoDigits_def, subst decimal.simps) simp
qed

text \<open>
  C2. For every duration of \<open>s\<close> whole seconds, \<open>s\<close> a natural number,
  \<open>formatDuration\<close> returns minutes and seconds separated by a colon when \<open>s\<close> is
  below 3600, and hours, minutes and seconds otherwise. Each field is the decimal
  writing of its component of \<open>s\<close>, padded with a zero to two digits: it consists of
  digits, reads back as the component, and has exactly two characters below 100.
\<close>

theorem formatDuration_whole_seconds:
  assumes "sint d = int s * 1000000000"
  shows "formatDuration d =
           (if s < 3600 then twoDigits (s div 60) @ '':'' @ twoDigits (s mod 60)
            else twoDigits (s div 3600) @ '':'' @ twoDigits (s div 60 mod 60) @ '':''
                   @ twoDigits (s mod 60))
       \<and> (\<forall>k. list_all isDigit (twoDigits k) \<and> digitsValue (twoDigits k) = k
               \<and> 2 \<le> length (twoDigits k) \<and> (k < 100 \<longrightarrow> length (twoDigits k) = 2))"
proof -
  have h: "nat (int s div 3600) = s div 3600"
    by (metis nat_int of_nat_numeral zdiv_int)
  have m: "nat (int s mod 3600 div 60) = s mod 3600 div 60"
    by (metis nat_int of_nat_numeral zdiv_int zmod_int)
  have sec: "nat (int s mod 60) = s mod 60"
    by (metis nat_int of_nat_numeral zmod_int)
  have m': "s mod 3600 div 60 = s div 60 mod 60"
  proof -
    have "s mod 3600 div 60 = s mod (60 * 60) div 60" by simp
    also have "\<dots> = s div 60 mod 60" by (simp only: mod_mult2_eq)
    finally show ?thesis .
  qed
  have pos: "0 < int s div 3600 \<longleftrightarrow> \<not> s < 3600"
    by (auto simp: pos_imp_zdiv_pos_iff)
  have fields: "formatDuration d =
           (if \<not> s < 3600
            then twoDigits (s div 3600) @ '':'' @ twoDigits (s mod 3600 div 60) @ '':''
                   @ twoDigits (s mod 60)
            else twoDigits (s mod 3600 div 60) @ '':'' @ twoDigits (s mod 60))"
    using formatDuration_fields [of "int s" d, unfolded h m sec pos] assms by simp
  have "formatDuration d =
           (if s < 3600 then twoDigits (s div 60) @ '':'' @ twoDigits (s mod 60)
            else twoDigits (s div 3600) @ '':'' @ twoDigits (s div 60 mod 60) @ '':''
                   @ twoDigits (s mod 60))"
  proof (cases "s < 3600")
    case True
    then have "s mod 3600 = s" by simp
    with True fields show ?thesis by simp
  next
    case False
    with fields show ?thesis by (simp add: m')
  qed
  then show ?thesis by (simp add: twoDigits_field twoDigits_length)
qed

theorem formatDuration_whole_seconds_witness:
  "sint (5399 * Second) = int 5399 * 1000000000
   \<and> formatDuration (5399 * Second) = ''01:29:59''
   \<and> sint (59 * Second) = int 59 * 1000000000
   \<and> formatDuration (59 * Second) = ''00:59''
   \<and> formatDuration 0 = ''00:00''"
  using formatDuration_whole_seconds [of "5399 * Second" 5399]
    formatDuration_whole_seconds [of "59 * Second" 59]
    formatDuration_whole_seconds [of 0 0]
  by (simp add: Second_def twoDigits_def decimal.simps digitChar_def)

subsection \<open>The text input's character limit\<close>

lemma dropSpaces_drop: "\<exists>k. dropSpaces w fuel s = drop k s"
proof (induction fuel arbitrary: s)
  case 0
  have "dropSpaces w 0 s = drop 0 s" by simp
  then show ?case by blast
next
  case (Suc fuel)
  show ?case
  proof (cases "w s = 0")
    case True
    then have "dropSpaces w (Suc fuel) s = drop 0 s" by simp
    then show ?thesis by blast
  next
    case False
    obtain k where "dropSpaces w fuel (drop (w s) s) = drop k (drop (w s) s)"
      using Suc [of "drop (w s) s"] by blast
    then have "dropSpaces w (Suc fuel) s = drop (k + w s) s" using False by simp
    then show ?thesis by blast
  qed
qed

lemma runeCount_append: "runeCount (a @ b) = runeCount a + runeCount b"
  by (simp add: runeCount_def)

lemma runeCount_drop: "runeCount (drop k s) \<le> runeCount s"
proof -
  have "runeCount s = runeCount (take k s) + runeCount (drop k s)"
    by (simp add: runeCount_append [symmetric])
  then show ?thesis by simp
qed

lemma runeCount_rev: "runeCount (rev s) = runeCount s"
  by (simp add: runeCount_def flip: rev_filter)

lemma runeCount_TrimSpace: "runeCount (TrimSpace s) \<le> runeCount s"
proof -
  obtain k where k: "TrimLeftSpace s = drop k s"
    using dropSpaces_drop [of spaceWidth "length s" s] by (auto simp: TrimLeftSpace_def)
  obtain j where j: "TrimRightSpace (drop k s) = rev (drop j (rev (drop k s)))"
    using dropSpaces_drop [of spaceWidthRev "length (drop k s)" "rev (drop k s)"]
    by (auto simp: TrimRightSpace_def)
  have "runeCount (TrimSpace s) = runeCount (drop j (rev (drop k s)))"
    by (simp add: TrimSpace_def k j runeCount_rev)
  also have "\<dots> \<le> runeCount (rev (drop k s))" by (rule runeCount_drop)
  also have "\<dots> \<le> runeCount s" by (simp add: runeCount_rev runeCount_drop)
  finally show ?thesis .
qed

lemma runeCount_digits: "list_all isDigit ds \<Longrightarrow> runeCount ds = length ds"
  by (induction ds) (auto simp: runeCount_def isDigit_def)

lemma foldl_digits_bound:
  "list_all isDigit ds \<Longrightarrow>
     foldl (\<lambda>a c. a * 10 + digitVal c) a ds < (a + 1) * 10 ^ length ds"
proof (induction ds arbitrary: a)
  case Nil
  show ?case by simp
next
  case (Cons c ds)
  from Cons.prems have ds: "list_all isDigit ds" and "isDigit c" by simp_all
  then have c: "digitVal c \<le> 9" by (auto simp: isDigit_def digitVal_def)
  have "foldl (\<lambda>a c. a * 10 + digitVal c) (a * 10 + digitVal c) ds
          < (a * 10 + digitVal c + 1) * 10 ^ length ds"
    by (rule Cons.IH [OF ds])
  also have "\<dots> \<le> ((a + 1) * 10) * 10 ^ length ds"
    using c by (intro mult_right_mono) simp_all
  also have "\<dots> = (a + 1) * 10 ^ length (c # ds)" by (simp add: algebra_simps)
  finally show ?case by simp
qed

lemma digitsValue_bound: "list_all isDigit ds \<Longrightarrow> digitsValue ds < 10 ^ length ds"
  using foldl_digits_bound [of ds 0] by (simp add: digitsValue_def)

lemma Atoi_positive_value:
  assumes "Atoi t = Inr v" and "0 <s v"
  shows "\<exists>ds. (t = ds \<or> t = CHR ''+'' # ds) \<and> list_all isDigit ds \<and> sint v = int (digitsValue ds)"
proof (cases t)
  case Nil
  with assms show ?thesis by (simp add: Atoi_def ParseInt_def)
next
  case (Cons c cs)
  let ?s = "if c = CHR ''+'' \<or> c = CHR ''-'' then cs else t"
  from assms(1) obtain i where i: "ParseInt t = Inr i" and v: "v = word_of_int i"
    by (auto simp: Atoi_def split: sum.splits)
  from i obtain un where un: "ParseUint ?s = Inr un"
    by (auto simp: ParseInt_def Cons Let_def split: sum.splits if_splits)
  note val = ParseUint_value [OF un]
  show ?thesis
  proof (cases "c = CHR ''-''")
    case True
    with i un have "un \<le> 2 ^ 63" and "i = - int un"
      by (auto simp: ParseInt_def Cons Let_def split: if_splits)
    then have "sint v = - int un"
      unfolding v using sint_word_of_int64 [of "- int un"] by simp
    with assms(2) show ?thesis by (simp add: word_sless_alt)
  next
    case False
    with i un have lt: "un < 2 ^ 63" and "i = int un"
      by (auto simp: ParseInt_def Cons Let_def split: if_splits)
    then have "sint v = int un"
      unfolding v using sint_word_of_int64 [of "int un"] by simp
    with val False show ?thesis
      by (cases "c = CHR ''+''") (auto simp: Cons)
  qed
qed

lemma limited_minutes:
  assumes "runeCount s \<le> 5" and "Atoi (TrimSpace s) = Inr v" and "0 <s v"
  shows "0 < sint v \<and> sint v \<le> 99999"
proof -
  obtain ds where t: "TrimSpace s = ds \<or> TrimSpace s = CHR ''+'' # ds"
    and ds: "list_all isDigit ds" and v: "sint v = int (digitsValue ds)"
    using Atoi_positive_value [OF assms(2,3)] by blast
  have "runeCount ds \<le> runeCount (TrimSpace s)"
    using t by (auto simp: runeCount_def)
  also have "\<dots> \<le> 5" using runeCount_TrimSpace [of s] assms(1) by simp
  finally have "length ds \<le> 5" using ds by (simp add: runeCount_digits)
  then have "(10::nat) ^ length ds \<le> 10 ^ 5" by (intro power_increasing) simp_all
  with digitsValue_bound [OF ds] have "digitsValue ds < 100000" by simp
  with v assms(3) show ?thesis by (simp add: word_sless_alt)
qed

lemma sint_minutes:
  fixes v :: int64
  assumes "0 < sint v" and "sint v \<le> 153722867"
  shows "sint (v * Minute) = sint v * 60000000000"
proof -
  have "v * Minute = word_of_int (sint v * 60000000000)"
    by (simp add: Minute_def Second_def)
  moreover have "sint v * 60000000000 < 2 ^ 63" using assms by simp
  moreover have "- (2 ^ 63) \<le> sint v * 60000000000" using assms by simp
  ultimately show ?thesis by (simp only: sint_word_of_int64)
qed

subsection \<open>Reachable states\<close>

lemma invariant_initial: "invariant initialModel"
  by (simp add: invariant_def initialModel_def withinLimit_def runeCount_def)

lemma invariant_forward:
  assumes "respectsLimit tiu" and "invariant m"
  shows "invariant (fst (forward tiu m msg))"
proof (cases "state m = inputtingTime")
  case True
  obtain ti cmd where t: "tiu msg (textInput m) = (ti, cmd)" by (cases "tiu msg (textInput m)")
  have "CharLimit (fst (tiu msg (textInput m))) = CharLimit (textInput m)
      \<and> (withinLimit (textInput m) \<longrightarrow> withinLimit (fst (tiu msg (textInput m))))"
    using assms(1) unfolding respectsLimit_def by blast
  then have "CharLimit ti = CharLimit (textInput m)" "withinLimit (textInput m) \<longrightarrow> withinLimit ti"
    by (simp_all add: t)
  then show ?thesis
    using assms(2) True by (simp add: forward_def t invariant_def)
next
  case False
  then show ?thesis using assms(2) by (simp add: forward_def)
qed

lemma invariant_submit:
  assumes "invariant m" and "state m = inputtingTime"
  shows "invariant (fst (submit m))"
proof (cases "Atoi (TrimSpace (Value (textInput m)))")
  case (Inl e)
  then show ?thesis using assms by (simp add: submit_def invariant_def)
next
  case (Inr v)
  show ?thesis
  proof (cases "v \<le>s 0")
    case True
    then show ?thesis using assms Inr by (simp add: submit_def invariant_def)
  next
    case False
    then have pos: "0 <s v" by (simp add: word_sle_eq word_sless_alt)
    have "runeCount (Value (textInput m)) \<le> 5"
      using assms(1) by (auto simp: invariant_def withinLimit_def)
    then have "0 < sint v \<and> sint v \<le> 99999"
      using Inr pos by (rule limited_minutes)
    then have "sint (v * Minute) = sint v * 60000000000" "0 < sint v"
      by (simp_all add: sint_minutes)
    then have "0 < sint (v * Minute)" by simp
    then show ?thesis
      using assms Inr False by (simp add: submit_def invariant_def Let_def)
  qed
qed

lemma invariant_onTick:
  assumes "invariant m"
  shows "invariant (onTick m)"
proof (cases "state m = running \<and> 0 <s timeRemaining m")
  case False
  then have "onTick m = m" by (auto simp: onTick_def)
  then show ?thesis using assms by simp
next
  case True
  then have r: "sint (timeRemaining m - Second) = sint (timeRemaining m) - 1000000000"
    by (simp add: sint_sub_Second)
  have nd: "\<not> done' m" using True assms by (auto simp: invariant_def)
  show ?thesis
  proof (cases "timeRemaining m - Second \<le>s 0")
    case z: True
    then show ?thesis
      using True assms by (simp add: onTick_def Let_def invariant_def)
  next
    case z: False
    then show ?thesis
      using True assms r nd by (simp add: onTick_def Let_def invariant_def word_sle_eq)
  qed
qed

lemma invariant_Update:
  assumes "respectsLimit tiu" and "invariant m"
  shows "invariant (fst (Update tiu m msg))"
proof (cases msg)
  case (KeyMsg k rs)
  then show ?thesis
    using assms by (simp add: Update_def invariant_forward invariant_submit)
next
  case (tickMsg t)
  then show ?thesis using assms by (simp add: Update_tick invariant_onTick)
next
  case (OtherMsg x)
  then show ?thesis using assms by (simp add: Update_def invariant_forward)
qed

lemma invariant_run:
  assumes "respectsLimit tiu" and "invariant m"
  shows "invariant (run tiu m msgs)"
  using assms(2)
  by (induction msgs arbitrary: m) (simp_all add: run_Nil run_Cons invariant_Update [OF assms(1)])

lemma forward_fields:
  "state (fst (forward tiu m msg)) = state m \<and> duration (fst (forward tiu m msg)) = duration m"
  by (simp add: forward_def split: prod.splits)

lemma Update_running:
  assumes "state m = running"
  shows "state (fst (Update tiu m msg)) = running \<and> duration (fst (Update tiu m msg)) = duration m"
  using assms
  by (cases msg) (simp_all add: Update_def forward_fields onTick_state onTick_duration)

lemma run_running:
  "state m = running \<Longrightarrow>
     state (run tiu m msgs) = running \<and> duration (run tiu m msgs) = duration m"
proof (induction msgs arbitrary: m)
  case Nil
  then show ?case by (simp add: run_Nil)
next
  case (Cons x xs)
  from Update_running [OF Cons.prems, of tiu x]
  have s: "state (fst (Update tiu m x)) = running"
    and d: "duration (fst (Update tiu m x)) = duration m" by simp_all
  from Cons.IH [OF s] show ?case by (simp add: run_Cons d)
qed

lemma Update_duration_changes:
  assumes "duration (fst (Update tiu m msg)) \<noteq> duration m"
  shows "state m = inputtingTime \<and> state (fst (Update tiu m msg)) = running"
proof -
  have st: "state m = inputtingTime"
    using assms Update_running [of m tiu msg] by (cases "state m") auto
  have "state (fst (Update tiu m msg)) = running"
  proof (rule ccontr)
    assume "state (fst (Update tiu m msg)) \<noteq> running"
    then have "duration (fst (Update tiu m msg)) = duration m"
      by (cases msg)
         (auto simp: Update_def forward_fields onTick_duration submit_def Let_def
               split: if_splits sum.splits)
    with assms show False by simp
  qed
  with st show ?thesis by simp
qed

lemma run_append: "run tiu m (xs @ ys) = run tiu (run tiu m xs) ys"
  by (simp add: run_def)

lemma runeCount_le_length: "runeCount s \<le> length s"
  by (simp add: runeCount_def)

lemma runeCount_take: "runeCount (take k s) \<le> runeCount s"
proof -
  have "runeCount s = runeCount (take k s) + runeCount (drop k s)"
    by (simp add: runeCount_append [symmetric])
  then show ?thesis by simp
qed

lemma respectsLimit_simpleInput: "respectsLimit simpleInput"
  unfolding respectsLimit_def
proof (intro allI conjI impI)
  fix msg ti
  show "CharLimit (fst (simpleInput msg ti)) = CharLimit ti"
    by (cases msg) (simp_all add: simpleInput_def)
  assume w: "withinLimit ti"
  show "withinLimit (fst (simpleInput msg ti))"
  proof (cases msg)
    case (KeyMsg k rs)
    have "runeCount (take (CharLimit ti) (Value ti @ rs)) \<le> CharLimit ti"
      using runeCount_le_length [of "take (CharLimit ti) (Value ti @ rs)"] by simp
    moreover have "runeCount (butlast (Value ti)) \<le> runeCount (Value ti)"
      by (simp add: butlast_conv_take runeCount_take)
    ultimately show ?thesis
      using w by (auto simp: KeyMsg simpleInput_def withinLimit_def)
  next
    case (tickMsg t)
    then show ?thesis using w by (simp add: simpleInput_def)
  next
    case (OtherMsg x)
    then show ?thesis using w by (simp add: simpleInput_def)
  qed
qed

text \<open>
  C6. With a text input that keeps to its character limit, every state reached from
  the initial state by any sequence of messages has a remaining time between 0 and the
  total duration; if it is done, its remaining time is 0; in the input phase its total
  duration and remaining time are 0. A message changes the total duration only when it
  takes the input phase to the running phase, and from a running state on the phase
  stays running and the total duration stays the same.
\<close>

theorem reachable_state_invariants:
  assumes "respectsLimit tiu"
  shows "0 \<le> sint (timeRemaining (run tiu initialModel msgs))
       \<and> sint (timeRemaining (run tiu initialModel msgs))
           \<le> sint (duration (run tiu initialModel msgs))
       \<and> (done' (run tiu initialModel msgs) \<longrightarrow> timeRemaining (run tiu initialModel msgs) = 0)
       \<and> (state (run tiu initialModel msgs) = inputtingTime
            \<longrightarrow> duration (run tiu initialModel msgs) = 0
                \<and> timeRemaining (run tiu initialModel msgs) = 0)
       \<and> (duration (run tiu initialModel (msgs @ [msg])) \<noteq> duration (run tiu initialModel msgs)
            \<longrightarrow> state (run tiu initialModel msgs) = inputtingTime
                \<and> state (run tiu initialModel (msgs @ [msg])) = running)
       \<and> (state (run tiu initialModel msgs) = running
            \<longrightarrow> state (run tiu initialModel (msgs @ later)) = running
                \<and> duration (run tiu initialModel (msgs @ later))
                    = duration (run tiu initialModel msgs))"
proof -
  have "invariant (run tiu initialModel msgs)"
    using assms invariant_initial by (rule invariant_run)
  then have "0 \<le> sint (timeRemaining (run tiu initialModel msgs))
       \<and> sint (timeRemaining (run tiu initialModel msgs))
           \<le> sint (duration (run tiu initialModel msgs))
       \<and> (done' (run tiu initialModel msgs) \<longrightarrow> timeRemaining (run tiu initialModel msgs) = 0)
       \<and> (state (run tiu initialModel msgs) = inputtingTime
            \<longrightarrow> duration (run tiu initialModel msgs) = 0
                \<and> timeRemaining (run tiu initialModel msgs) = 0)"
    by (simp add: invariant_def)
  moreover have "duration (run tiu initialModel (msgs @ [msg])) \<noteq> duration (run tiu initialModel msgs)
            \<longrightarrow> state (run tiu initialModel msgs) = inputtingTime
                \<and> state (run tiu initialModel (msgs @ [msg])) = running"
    using Update_duration_changes [of tiu "run tiu initialModel msgs" msg]
    by (simp add: run_snoc)
  moreover have "state (run tiu initialModel msgs) = running
            \<longrightarrow> state (run tiu initialModel (msgs @ later)) = running
                \<and> duration (run tiu initialModel (msgs @ later))
                    = duration (run tiu initialModel msgs)"
    using run_running [of "run tiu initialModel msgs" tiu later]
    by (simp add: run_append)
  ultimately show ?thesis by blast
qed

theorem reachable_state_invariants_witness:
  "respectsLimit simpleInput
   \<and> state (run simpleInput initialModel [KeyMsg KeyRunes ''1'', KeyMsg KeyEnter [], tickMsg 0]) = running
   \<and> duration (run simpleInput initialModel [KeyMsg KeyRunes ''1'', KeyMsg KeyEnter [], tickMsg 0])
        = 60000000000
   \<and> timeRemaining (run simpleInput initialModel [KeyMsg KeyRunes ''1'', KeyMsg KeyEnter [], tickMsg 0])
        = 59000000000
   \<and> \<not> done' (run simpleInput initialModel [KeyMsg KeyRunes ''1'', KeyMsg KeyEnter [], tickMsg 0])
   \<and> state (run simpleInput initialModel [KeyMsg KeyRunes ''1'']) = inputtingTime
   \<and> duration (run simpleInput initialModel [KeyMsg KeyRunes ''1'']) = 0
   \<and> duration (run simpleInput initialModel ([KeyMsg KeyRunes ''1''] @ [KeyMsg KeyEnter []]))
       \<noteq> duration (run simpleInput initialModel [KeyMsg KeyRunes ''1''])"
  using reachable_state_invariants [OF respectsLimit_simpleInput,
          of "[KeyMsg KeyRunes ''1'', KeyMsg KeyEnter [], tickMsg 0]" "tickMsg 1" "[]"]
    reachable_state_invariants [OF respectsLimit_simpleInput,
          of "[KeyMsg KeyRunes ''1'']" "KeyMsg KeyEnter []" "[]"]
    respectsLimit_simpleInput
  by (simp add: run_def ev_string ev_step)

text \<open>
  The limit matters: a text input without one can hold "153722868", and that many
  minutes wrap around to a negative duration.
\<close>

lemma unlimited_input_overflows:
  "sint (duration (fst (Update simpleInput
      (initialModel\<lparr>textInput := (textInput initialModel)\<lparr>CharLimit := 0, Value := ''153722868''\<rparr>\<rparr>)
      (KeyMsg KeyEnter [])))) < 0"
  by (simp add: ev_string ev_step)

subsection \<open>Submitting the content of the input field\<close>

lemma decimal_within_limit:
  assumes "runeCount (a @ decimal n @ b) \<le> 5"
  shows "n \<le> 99999"
proof -
  have "runeCount (decimal n) \<le> runeCount (a @ decimal n @ b)"
    by (simp add: runeCount_append)
  then have "length (decimal n) \<le> 5"
    using assms by (simp add: runeCount_digits decimal_digits)
  then have "(10::nat) ^ length (decimal n) \<le> 10 ^ 5" by (intro power_increasing) simp_all
  moreover have "n < 10 ^ length (decimal n)"
    using digitsValue_bound [OF decimal_digits, of n] by (simp add: digitsValue_decimal)
  ultimately show ?thesis by simp
qed

lemma reachable_within_limit:
  assumes "respectsLimit tiu"
  shows "runeCount (Value (textInput (run tiu initialModel msgs))) \<le> 5"
proof -
  have "invariant (run tiu initialModel msgs)"
    using assms invariant_initial by (rule invariant_run)
  then show ?thesis by (auto simp: invariant_def withinLimit_def)
qed

text \<open>
  C1. With a text input that keeps to its character limit, in every state reached from
  the initial state that is in the input phase and whose buffer holds the decimal
  string of a positive integer \<open>n\<close>, Enter moves to the running phase with the total
  duration and the remaining time both \<open>n\<close> minutes and the validation error empty;
  nothing else changes and no command is returned. No bound on \<open>n\<close> is assumed: the
  five characters of the input hold at most 99999, and that many minutes fit the 64-bit
  count of nanoseconds.
\<close>

theorem submit_decimal_starts_timer:
  assumes "respectsLimit tiu"
    and "state (run tiu initialModel msgs) = inputtingTime"
    and "Value (textInput (run tiu initialModel msgs)) = decimal n"
    and "0 < n"
  shows "Update tiu (run tiu initialModel msgs) (KeyMsg KeyEnter rs)
           = ((run tiu initialModel msgs)
                \<lparr>duration := word_of_int (int n) * Minute,
                 timeRemaining := word_of_int (int n) * Minute,
                 state := running, err := []\<rparr>, CmdNil)
       \<and> sint (word_of_int (int n) * Minute :: Duration) = int n * sint Minute
       \<and> sint Minute = 60 * 1000000000"
proof -
  let ?m = "run tiu initialModel msgs"
  have "runeCount ([] @ decimal n @ []) \<le> 5"
    using reachable_within_limit [OF assms(1), of msgs] assms(3) by simp
  then have small: "n \<le> 99999" by (rule decimal_within_limit)
  have "TrimSpace (Value (textInput ?m)) = decimal n"
    using TrimSpace_decimal [of "[]" "[]" n] assms(3) by simp
  moreover have "n < 2 ^ 63" using small by simp
  ultimately have "submit ?m = (?m\<lparr>duration := word_of_int (int n) * Minute,
                 timeRemaining := word_of_int (int n) * Minute,
                 state := running, err := []\<rparr>, CmdNil)"
    using assms(4) by (intro submit_accepts)
  moreover have "n \<le> 153722867" using small by simp
  then have "sint (word_of_int (int n) * Minute :: Duration) = int n * 60000000000"
    by (rule minutes_no_overflow)
  ultimately show ?thesis
    using assms(2) by (simp add: Update_enter sint_Minute)
qed

theorem submit_decimal_starts_timer_witness:
  "respectsLimit simpleInput
   \<and> state (run simpleInput initialModel [KeyMsg KeyRunes ''90'']) = inputtingTime
   \<and> Value (textInput (run simpleInput initialModel [KeyMsg KeyRunes ''90''])) = decimal 90
   \<and> (0::nat) < 90
   \<and> state (fst (Update simpleInput (run simpleInput initialModel [KeyMsg KeyRunes ''90''])
         (KeyMsg KeyEnter []))) = running
   \<and> duration (fst (Update simpleInput (run simpleInput initialModel [KeyMsg KeyRunes ''90''])
         (KeyMsg KeyEnter []))) = 5400000000000
   \<and> timeRemaining (fst (Update simpleInput (run simpleInput initialModel [KeyMsg KeyRunes ''90''])
         (KeyMsg KeyEnter []))) = 5400000000000
   \<and> err (fst (Update simpleInput (run simpleInput initialModel [KeyMsg KeyRunes ''90''])
         (KeyMsg KeyEnter []))) = []"
proof -
  have st: "state (run simpleInput initialModel [KeyMsg KeyRunes ''90'']) = inputtingTime"
    and v: "Value (textInput (run simpleInput initialModel [KeyMsg KeyRunes ''90''])) = ''90''"
    by (simp_all add: run_def ev_step)
  have dec: "decimal 90 = ''90''" by (simp add: decimal.simps digitChar_def)
  have pos: "(0::nat) < 90" by simp
  have v': "Value (textInput (run simpleInput initialModel [KeyMsg KeyRunes ''90''])) = decimal 90"
    using v dec by simp
  note accepted = submit_decimal_starts_timer
     [of simpleInput "[KeyMsg KeyRunes ''90'']" 90 "[]",
      OF respectsLimit_simpleInput st v' pos, THEN conjunct1]
  have "Update simpleInput (run simpleInput initialModel [KeyMsg KeyRunes ''90''])
          (KeyMsg KeyEnter [])
        = ((run simpleInput initialModel [KeyMsg KeyRunes ''90''])
             \<lparr>duration := 5400000000000, timeRemaining := 5400000000000,
              state := running, err := []\<rparr>, CmdNil)"
    using accepted by (simp add: Minute_def Second_def)
  then show ?thesis
    using respectsLimit_simpleInput st v dec by simp
qed

text \<open>
  C10. With a text input that keeps to its character limit, in every state reached from
  the initial state that is in the input phase and whose buffer holds the decimal
  string of \<open>n\<close> between two runs of white space code points: Enter does exactly what
  it does on the bare decimal string (the buffer itself aside); when \<open>n\<close> is positive
  it moves to the running phase with total duration and remaining time \<open>n\<close> minutes
  and the error cleared; and a buffer of white space only is a validation failure.
\<close>

theorem submit_trims_white_space:
  assumes "respectsLimit tiu"
    and "state (run tiu initialModel msgs) = inputtingTime"
    and "set ps \<subseteq> set spaceEncodings" and "set qs \<subseteq> set spaceEncodings"
  shows "(Value (textInput (run tiu initialModel msgs)) = concat ps @ decimal n @ concat qs
            \<longrightarrow> Update tiu (run tiu initialModel msgs) (KeyMsg KeyEnter rs)
                  = ((fst (Update tiu
                             ((run tiu initialModel msgs)
                                \<lparr>textInput := (textInput (run tiu initialModel msgs))
                                                 \<lparr>Value := decimal n\<rparr>\<rparr>)
                             (KeyMsg KeyEnter rs)))
                        \<lparr>textInput := textInput (run tiu initialModel msgs)\<rparr>,
                     snd (Update tiu
                             ((run tiu initialModel msgs)
                                \<lparr>textInput := (textInput (run tiu initialModel msgs))
                                                 \<lparr>Value := decimal n\<rparr>\<rparr>)
                             (KeyMsg KeyEnter rs))))
       \<and> (Value (textInput (run tiu initialModel msgs)) = concat ps @ decimal n @ concat qs
            \<and> 0 < n
            \<longrightarrow> Update tiu (run tiu initialModel msgs) (KeyMsg KeyEnter rs)
                  = ((run tiu initialModel msgs)
                       \<lparr>duration := word_of_int (int n) * Minute,
                        timeRemaining := word_of_int (int n) * Minute,
                        state := running, err := []\<rparr>, CmdNil)
                \<and> sint (word_of_int (int n) * Minute :: Duration) = int n * sint Minute
                \<and> sint Minute = 60 * 1000000000)
       \<and> (Value (textInput (run tiu initialModel msgs)) = concat ps
            \<longrightarrow> Update tiu (run tiu initialModel msgs) (KeyMsg KeyEnter rs)
                  = ((run tiu initialModel msgs)\<lparr>err := validationMessage\<rparr>, CmdNil))"
proof (intro conjI impI)
  let ?m = "run tiu initialModel msgs"
  let ?bare = "?m\<lparr>textInput := (textInput ?m)\<lparr>Value := decimal n\<rparr>\<rparr>"
  {
    assume v: "Value (textInput ?m) = concat ps @ decimal n @ concat qs"
    have t: "TrimSpace (Value (textInput ?m)) = decimal n"
      using TrimSpace_decimal [OF assms(3,4)] v by simp
    have t0: "TrimSpace (Value (textInput ?bare)) = decimal n"
      using TrimSpace_decimal [of "[]" "[]" n] by simp
    have "submit (?bare\<lparr>textInput := textInput ?m\<rparr>)
            = ((fst (submit ?bare))\<lparr>textInput := textInput ?m\<rparr>, snd (submit ?bare))"
      by (rule submit_textInput_only) (simp only: t t0)
    then show "Update tiu ?m (KeyMsg KeyEnter rs)
                  = ((fst (Update tiu ?bare (KeyMsg KeyEnter rs)))\<lparr>textInput := textInput ?m\<rparr>,
                     snd (Update tiu ?bare (KeyMsg KeyEnter rs)))"
      using assms(2) by (simp add: Update_enter)
  }
  {
    assume a: "Value (textInput ?m) = concat ps @ decimal n @ concat qs \<and> 0 < n"
    have "runeCount (concat ps @ decimal n @ concat qs) \<le> 5"
      using reachable_within_limit [OF assms(1), of msgs] a by simp
    then have small: "n \<le> 99999" by (rule decimal_within_limit)
    have t: "TrimSpace (Value (textInput ?m)) = decimal n"
      using TrimSpace_decimal [OF assms(3,4)] a by simp
    have "n < 2 ^ 63" using small by simp
    then have "submit ?m = (?m\<lparr>duration := word_of_int (int n) * Minute,
                   timeRemaining := word_of_int (int n) * Minute,
                   state := running, err := []\<rparr>, CmdNil)"
      using t a by (intro submit_accepts) simp_all
    then show "Update tiu ?m (KeyMsg KeyEnter rs)
                    = (?m\<lparr>duration := word_of_int (int n) * Minute,
                          timeRemaining := word_of_int (int n) * Minute,
                          state := running, err := []\<rparr>, CmdNil)"
      using assms(2) by (simp add: Update_enter)
    have "n \<le> 153722867" using small by simp
    then show "sint (word_of_int (int n) * Minute :: Duration) = int n * sint Minute"
      using minutes_no_overflow [of n] by (simp add: sint_Minute)
    show "sint Minute = 60 * 1000000000" by (rule sint_Minute)
  }
  {
    assume v: "Value (textInput ?m) = concat ps"
    have "TrimSpace (Value (textInput ?m)) = []"
      using TrimSpace_only_spaces [OF assms(3)] v by simp
    then have "\<not> positiveNumeral (TrimSpace (Value (textInput ?m)))"
      by (simp add: positiveNumeral_def)
    then show "Update tiu ?m (KeyMsg KeyEnter rs) = (?m\<lparr>err := validationMessage\<rparr>, CmdNil)"
      using assms(2) by (simp add: Update_enter submit_rejects)
  }
qed

theorem submit_trims_white_space_witness:
  "respectsLimit simpleInput
   \<and> set [[CHR 0x20], [CHR 0xC2, CHR 0xA0]] \<subseteq> set spaceEncodings
   \<and> state (run simpleInput initialModel
        [KeyMsg KeyRunes [CHR 0x20, CHR 0xC2, CHR 0xA0, CHR ''5'', CHR 0x20]]) = inputtingTime
   \<and> Value (textInput (run simpleInput initialModel
        [KeyMsg KeyRunes [CHR 0x20, CHR 0xC2, CHR 0xA0, CHR ''5'', CHR 0x20]]))
       = concat [[CHR 0x20], [CHR 0xC2, CHR 0xA0]] @ decimal 5 @ concat [[CHR 0x20]]
   \<and> state (fst (Update simpleInput (run simpleInput initialModel
        [KeyMsg KeyRunes [CHR 0x20, CHR 0xC2, CHR 0xA0, CHR ''5'', CHR 0x20]])
        (KeyMsg KeyEnter []))) = running
   \<and> duration (fst (Update simpleInput (run simpleInput initialModel
        [KeyMsg KeyRunes [CHR 0x20, CHR 0xC2, CHR 0xA0, CHR ''5'', CHR 0x20]])
        (KeyMsg KeyEnter []))) = 300000000000
   \<and> err (fst (Update simpleInput (run simpleInput initialModel
        [KeyMsg KeyRunes [CHR 0x20, CHR 0xC2, CHR 0xA0]])
        (KeyMsg KeyEnter []))) = validationMessage
   \<and> state (fst (Update simpleInput (run simpleInput initialModel
        [KeyMsg KeyRunes [CHR 0x20, CHR 0xC2, CHR 0xA0]])
        (KeyMsg KeyEnter []))) = inputtingTime"
proof -
  let ?padded = "run simpleInput initialModel
        [KeyMsg KeyRunes [CHR 0x20, CHR 0xC2, CHR 0xA0, CHR ''5'', CHR 0x20]]"
  let ?blank = "run simpleInput initialModel [KeyMsg KeyRunes [CHR 0x20, CHR 0xC2, CHR 0xA0]]"
  have sub: "set [[CHR 0x20], [CHR 0xC2, CHR 0xA0]] \<subseteq> set spaceEncodings"
    and sub1: "set [[CHR 0x20]] \<subseteq> set spaceEncodings"
    and sub0: "set ([] :: string list) \<subseteq> set spaceEncodings"
    by (simp_all add: spaceEncodings_def)
  have dec: "decimal 5 = ''5''" by (simp add: decimal.simps digitChar_def)
  have st: "state ?padded = inputtingTime" and st': "state ?blank = inputtingTime"
    by (simp_all add: run_def ev_step)
  have v: "Value (textInput ?padded)
             = concat [[CHR 0x20], [CHR 0xC2, CHR 0xA0]] @ decimal 5 @ concat [[CHR 0x20]]"
    by (simp add: run_def ev_step dec)
  have v': "Value (textInput ?blank) = concat [[CHR 0x20], [CHR 0xC2, CHR 0xA0]]"
    by (simp add: run_def ev_step)
  note accepted = submit_trims_white_space
        [of simpleInput _ "[[CHR 0x20], [CHR 0xC2, CHR 0xA0]]" "[[CHR 0x20]]" 5 "[]",
         OF respectsLimit_simpleInput st sub sub1, THEN conjunct2, THEN conjunct1]
  note rejected = submit_trims_white_space
        [of simpleInput _ "[[CHR 0x20], [CHR 0xC2, CHR 0xA0]]" "[]" 5 "[]",
         OF respectsLimit_simpleInput st' sub sub0, THEN conjunct2, THEN conjunct2]
  have "Update simpleInput ?padded (KeyMsg KeyEnter [])
      = (?padded\<lparr>duration := 300000000000, timeRemaining := 300000000000,
           state := running, err := []\<rparr>, CmdNil)"
    using accepted v by (simp add: Minute_def Second_def)
  moreover have "Update simpleInput ?blank (KeyMsg KeyEnter [])
      = (?blank\<lparr>err := validationMessage\<rparr>, CmdNil)"
    using rejected v' by simp
  ultimately show ?thesis
    using respectsLimit_simpleInput sub st st' v by simp
qed

subsection \<open>The progress fraction\<close>

lemma float64_of_int64_zero: "float64_of_int64 x = Finite 0 \<longleftrightarrow> x = 0"
  by (simp add: float64_of_int64_def signed_eq_0_iff)

lemma percentComplete_nonzero:
  assumes "duration m \<noteq> 0"
  shows "View_percentComplete m
           = Finite (of_int (sint (duration m - timeRemaining m)) / of_int (sint (duration m)))"
  using assms
  by (simp add: View_percentComplete_def View_elapsed_def float64_of_int64_def signed_eq_0_iff)

lemma percentComplete_zero:
  assumes "duration m = 0"
  shows "View_percentComplete m
           = (if timeRemaining m = 0 then NaN
              else if 0 < sint (- timeRemaining m) then PosInf else NegInf)"
proof -
  have "(of_int (sint (- timeRemaining m)) :: rat) = 0 \<longleftrightarrow> timeRemaining m = 0"
    by (simp add: signed_eq_0_iff)
  moreover have "(0 :: rat) < of_int (sint (- timeRemaining m)) \<longleftrightarrow> 0 < sint (- timeRemaining m)"
    by (simp only: of_int_0_less_iff)
  ultimately show ?thesis
    using assms
    by (simp add: View_percentComplete_def View_elapsed_def float64_of_int64_def
          del: of_int_sint)
qed

lemma sint_elapsed:
  assumes "0 \<le> sint (timeRemaining m)" and "sint (timeRemaining m) \<le> sint (duration m)"
  shows "sint (duration m - timeRemaining m) = sint (duration m) - sint (timeRemaining m)"
proof -
  have "sint (duration m) < 2 ^ 63" using sint_lt [of "duration m"] by simp
  then have "sint (duration m) - sint (timeRemaining m) < 2 ^ 63"
    and "- (2 ^ 63) \<le> sint (duration m) - sint (timeRemaining m)"
    using assms by simp_all
  then show ?thesis
    by (simp add: sint_word_ariths signed_take_bit_int_eq_self)
qed

lemma percentComplete_bounds:
  assumes "invariant m" and "state m = running"
  shows "0 < sint (duration m)
       \<and> (\<exists>q. View_percentComplete m = Finite q \<and> 0 \<le> q \<and> q \<le> 1
              \<and> q = of_int (sint (duration m) - sint (timeRemaining m)) / of_int (sint (duration m)))"
proof -
  from assms have d: "0 < sint (duration m)"
    and r: "0 \<le> sint (timeRemaining m)" "sint (timeRemaining m) \<le> sint (duration m)"
    by (simp_all add: invariant_def)
  from d have nz: "duration m \<noteq> 0" by auto
  define D where "D = sint (duration m)"
  define R where "R = sint (timeRemaining m)"
  have v: "View_percentComplete m = Finite (of_int (D - R) / of_int D)"
    using percentComplete_nonzero [OF nz] sint_elapsed [OF r]
    by (simp add: D_def R_def del: of_int_sint of_int_diff)
  have DR: "0 < D" "0 \<le> R" "R \<le> D" using d r by (simp_all add: D_def R_def)
  have "(0::rat) \<le> of_int (D - R) / of_int D" using DR by (intro divide_nonneg_pos) simp_all
  moreover have "(of_int (D - R) / of_int D :: rat) \<le> 1" using DR by (simp add: divide_le_eq_1)
  ultimately show ?thesis using d v unfolding D_def R_def by blast
qed

text \<open>
  C4 (amended). The view computes the progress fraction as the floating-point quotient
  of total duration minus remaining time by total duration, with no guard. When the
  total duration is not 0 the fraction is that quotient. When it is 0 the fraction is
  not a number if the remaining time is 0 too, and an infinity otherwise; it is not 0,
  and nothing panics. In every running state reached from the initial state, with a
  text input that keeps to its character limit, the total duration is positive, so the
  divisor is not 0, and the fraction lies between 0 and 1.
\<close>

theorem progress_fraction_unguarded:
  "(duration m \<noteq> 0
      \<longrightarrow> View_percentComplete m
            = Finite (of_int (sint (View_elapsed m)) / of_int (sint (duration m))))
   \<and> (duration m = 0
      \<longrightarrow> View_percentComplete m
            = (if timeRemaining m = 0 then NaN
               else if 0 < sint (View_elapsed m) then PosInf else NegInf))
   \<and> (respectsLimit tiu \<and> state (run tiu initialModel msgs) = running
      \<longrightarrow> 0 < sint (duration (run tiu initialModel msgs))
          \<and> (\<exists>q. View_percentComplete (run tiu initialModel msgs) = Finite q \<and> 0 \<le> q \<and> q \<le> 1))"
proof (intro conjI impI)
  assume nz: "duration m \<noteq> 0"
  show "View_percentComplete m
            = Finite (of_int (sint (View_elapsed m)) / of_int (sint (duration m)))"
    unfolding View_elapsed_def by (rule percentComplete_nonzero [OF nz])
next
  assume z: "duration m = 0"
  then have "View_elapsed m = - timeRemaining m" by (simp add: View_elapsed_def)
  then show "View_percentComplete m
            = (if timeRemaining m = 0 then NaN
               else if 0 < sint (View_elapsed m) then PosInf else NegInf)"
    using percentComplete_zero [OF z] by (simp only: if_True if_False)
next
  assume a: "respectsLimit tiu \<and> state (run tiu initialModel msgs) = running"
  then have "invariant (run tiu initialModel msgs)"
    using invariant_initial by (intro invariant_run) simp_all
  with a have b: "0 < sint (duration (run tiu initialModel msgs))
       \<and> (\<exists>q. View_percentComplete (run tiu initialModel msgs) = Finite q \<and> 0 \<le> q \<and> q \<le> 1
              \<and> q = of_int (sint (duration (run tiu initialModel msgs))
                          - sint (timeRemaining (run tiu initialModel msgs)))
                      / of_int (sint (duration (run tiu initialModel msgs))))"
    by (intro percentComplete_bounds) simp_all
  then show "0 < sint (duration (run tiu initialModel msgs))" by simp
  from b show "\<exists>q. View_percentComplete (run tiu initialModel msgs) = Finite q \<and> 0 \<le> q \<and> q \<le> 1"
    by blast
qed

lemmas ev_view = View_percentComplete_def View_elapsed_def float64_of_int64_def

theorem progress_fraction_unguarded_witness:
  "respectsLimit simpleInput
   \<and> state (run simpleInput initialModel [KeyMsg KeyRunes ''1'', KeyMsg KeyEnter [], tickMsg 0]) = running
   \<and> duration (run simpleInput initialModel [KeyMsg KeyRunes ''1'', KeyMsg KeyEnter [], tickMsg 0]) \<noteq> 0
   \<and> View_percentComplete
        (run simpleInput initialModel [KeyMsg KeyRunes ''1'', KeyMsg KeyEnter [], tickMsg 0])
       = Finite (1 / 60)
   \<and> duration (initialModel\<lparr>state := running, timeRemaining := Second\<rparr>) = 0
   \<and> View_percentComplete (initialModel\<lparr>state := running, timeRemaining := Second\<rparr>) = NegInf"
  using progress_fraction_unguarded
     [of "run simpleInput initialModel [KeyMsg KeyRunes ''1'', KeyMsg KeyEnter [], tickMsg 0]"
         simpleInput "[KeyMsg KeyRunes ''1'', KeyMsg KeyEnter [], tickMsg 0]"]
    progress_fraction_unguarded
     [of "initialModel\<lparr>state := running, timeRemaining := Second\<rparr>" simpleInput "[]"]
    respectsLimit_simpleInput
  by (simp add: run_def ev_string ev_step ev_view)

text \<open>
  In the running state with total duration 0 the fraction is not a number, not 0.
\<close>

theorem zero_duration_fraction_counterexample:
  "state (initialModel\<lparr>state := running\<rparr>) = running
   \<and> duration (initialModel\<lparr>state := running\<rparr>) = 0
   \<and> View_percentComplete (initialModel\<lparr>state := running\<rparr>) = NaN
   \<and> View_percentComplete (initialModel\<lparr>state := running\<rparr>) \<noteq> Finite 0"
  by (simp add: ev_view initialModel_def)

text \<open>
  Such a state comes out of \<open>Update\<close> itself when the text input has no limit:
  9007199254740992 minutes, in nanoseconds, is a multiple of \<open>2 ^ 64\<close>.
\<close>

lemma zero_duration_by_overflow:
  "state (fst (Update simpleInput
      (initialModel\<lparr>textInput := (textInput initialModel)
         \<lparr>CharLimit := 0, Value := ''9007199254740992''\<rparr>\<rparr>)
      (KeyMsg KeyEnter []))) = running
   \<and> duration (fst (Update simpleInput
      (initialModel\<lparr>textInput := (textInput initialModel)
         \<lparr>CharLimit := 0, Value := ''9007199254740992''\<rparr>\<rparr>)
      (KeyMsg KeyEnter []))) = 0"
  by (simp add: ev_string ev_step)

end
